theory Spec2Isabelle
  imports Main "HOL-Library.List_Lexorder" "HOL-Library.Product_Lexorder"
begin

section \<open>The traversal kernel of SoAction\<close>

text \<open>
  A shallow embedding of \<^verbatim>\<open>src/src/actions/SoAction.cpp\<close>: the three \<^verbatim>\<open>apply\<close>
  overloads, the path code machinery (\<^verbatim>\<open>pushCurPath\<close>, \<^verbatim>\<open>getPathCode\<close>,
  \<^verbatim>\<open>usePathCode\<close>), the two \<^verbatim>\<open>switchTo...Traversal\<close> methods and the accessors of
  the applied data. Every method of the class becomes a function from the action object
  before the call to the action object after it, or to an error when the C++ code would
  stop in an assertion, dereference a null pointer or index out of range.
\<close>

subsection \<open>Nodes, pointers and errors\<close>

text \<open>
  A node is known to the kernel by its identity only (its address). A \<^verbatim>\<open>SoNode *\<close> is
  a \<open>SoNode option\<close>, \<open>None\<close> for the null pointer.
\<close>

type_synonym SoNode = nat

datatype error = AssertionFailed | NullPointer | WildPointer | OutOfRange

subsection \<open>Paths (class SoPath, not among the sources)\<close>

text \<open>
  Modelled from the spec: the classes SoPath and SoTempPath are missing from the sources.
  Section 4.6 of the specification describes a path as a head and a sequence of
  (node, child index) steps, with \<open>getNode 0\<close> the head. A path is the list of its
  (node, index) pairs, the head first; the index slot of the head holds the placeholder
  \<open>-1\<close> when the head is set by \<open>setHead\<close>. The full length counts the head, so that a
  path with a head only has full length 1 (section 4.8.1, step 6). A node of a path may
  be null: \<^verbatim>\<open>pushCurPath(void)\<close> appends one.
\<close>

type_synonym SoPath = "(SoNode option \<times> int) list"

definition getFullLength :: "SoPath \<Rightarrow> int" where
  "getFullLength p = int (length p)"

text \<open>
  Modelled from the spec: the specification knows one length only; \<open>getLength\<close> is used by
  the kernel for the test "the path is not empty" alone.
\<close>

definition getLength :: "SoPath \<Rightarrow> int" where
  "getLength p = int (length p)"

text \<open>Modelled from the spec: \<open>getIndex i\<close> is the child index at step \<open>i\<close>.\<close>

definition getIndex :: "SoPath \<Rightarrow> int \<Rightarrow> error + int" where
  "getIndex p i = (if 0 \<le> i \<and> i < getFullLength p then Inr (snd (p ! nat i)) else Inl OutOfRange)"

text \<open>Modelled from the spec: \<open>getNode i\<close> is the node at step \<open>i\<close>, the head at step 0.\<close>

definition getNode :: "SoPath \<Rightarrow> int \<Rightarrow> error + SoNode option" where
  "getNode p i = (if 0 \<le> i \<and> i < getFullLength p then Inr (fst (p ! nat i)) else Inl OutOfRange)"

text \<open>Modelled from the spec: the head of a path; an empty path has none.\<close>

definition getHead :: "SoPath \<Rightarrow> SoNode option" where
  "getHead p = (case p of [] \<Rightarrow> None | s # _ \<Rightarrow> fst s)"

text \<open>Modelled from the spec: \<open>setHead\<close> sets the head and truncates.\<close>

definition setHead :: "SoPath \<Rightarrow> SoNode option \<Rightarrow> SoPath" where
  "setHead p node = [(node, -1)]"

text \<open>Modelled from the spec: \<open>append(child, index)\<close> adds one step at the tail.\<close>

definition append_node :: "SoPath \<Rightarrow> SoNode option \<Rightarrow> int \<Rightarrow> SoPath" where
  "append_node p node childindex = p @ [(node, childindex)]"

text \<open>
  Modelled from the spec: \<open>containsPath other\<close> holds iff \<open>other\<close> is a prefix of this path
  in terms of (node, child index) pairs starting at the head.
\<close>

definition containsPath :: "SoPath \<Rightarrow> SoPath \<Rightarrow> bool" where
  "containsPath this other = (take (length other) this = other)"

subsection \<open>Path lists (class SoPathList, not among the sources)\<close>

type_synonym SoPathList = "SoPath list"

text \<open>
  Modelled from the spec: paths are ordered lexicographically on the identity of the
  head, then on the child indices (section 4.6); \<open>sort\<close> sorts by this order
  (section 4.7). The null head is given the identity 0.
\<close>

definition head_id :: "SoNode option \<Rightarrow> nat" where
  "head_id h = (case h of None \<Rightarrow> 0 | Some n \<Rightarrow> Suc n)"

definition path_key :: "SoPath \<Rightarrow> nat \<times> int list" where
  "path_key p = (head_id (getHead p), map snd (tl p))"

definition sort_pl :: "SoPathList \<Rightarrow> SoPathList" where
  "sort_pl pl = sort_key path_key pl"

text \<open>
  Modelled from the spec: \<open>uniquify\<close> on a sorted list removes any path that is a prefix
  of, or equal to, its predecessor (section 4.7). The results below use two facts about
  it only: it keeps the first path and it keeps the order of the paths it keeps.
\<close>

fun uniquify :: "SoPathList \<Rightarrow> SoPathList" where
  "uniquify [] = []"
| "uniquify [p] = [p]"
| "uniquify (p # q # ps) =
     (if containsPath p q then uniquify (p # ps) else p # uniquify (q # ps))"

subsection \<open>The action object\<close>

datatype AppliedCode = NODE | PATH | PATH_LIST

datatype PathCode = NO_PATH | IN_PATH | BELOW_PATH | OFF_PATH

text \<open>
  What a pointer stored in the action refers to. The kernel never changes the objects
  it is applied to, so a pointer is identified with the value it points to.
\<close>

datatype pointer = NULL | NodePtr SoNode | PathPtr SoPath | PathListPtr SoPathList

definition node_ptr :: "SoNode option \<Rightarrow> pointer" where
  "node_ptr n = (case n of None \<Rightarrow> NULL | Some x \<Rightarrow> NodePtr x)"

definition path_ptr :: "SoPath option \<Rightarrow> pointer" where
  "path_ptr p = (case p of None \<Rightarrow> NULL | Some x \<Rightarrow> PathPtr x)"

text \<open>
  The applied data is a union (declared in \<^verbatim>\<open>SoAction.h\<close>): the members \<^verbatim>\<open>node\<close>,
  \<^verbatim>\<open>path\<close> and \<^verbatim>\<open>pathlistdata.pathlist\<close> share the first pointer of its storage,
  \<^verbatim>\<open>pathlistdata.origpathlist\<close> is the second one. Assigning one of the three shared
  members overwrites the other two; reading a member returns the shared pointer.
\<close>

record AppliedData =
  shared :: pointer
  origpathlist :: pointer

text \<open>Dereferencing \<^verbatim>\<open>applieddata.path\<close> and \<^verbatim>\<open>applieddata.pathlistdata.pathlist\<close>.\<close>

definition deref_path :: "pointer \<Rightarrow> error + SoPath" where
  "deref_path q = (case q of PathPtr p \<Rightarrow> Inr p | NULL \<Rightarrow> Inl NullPointer | _ \<Rightarrow> Inl WildPointer)"

definition deref_pathlist :: "pointer \<Rightarrow> error + SoPathList" where
  "deref_pathlist q =
     (case q of PathListPtr pl \<Rightarrow> Inr pl | NULL \<Rightarrow> Inl NullPointer | _ \<Rightarrow> Inl WildPointer)"

text \<open>
  The traversal state (class SoState) is the stack of elements, which belongs to the
  element classes; of it the kernel decides only whether the object exists.
\<close>

datatype SoState = NewSoState

record SoAction =
  state :: "SoState option"
  appliedcode :: AppliedCode
  applieddata :: AppliedData
  currentpath :: SoPath
  terminated :: bool
  currentpathcode :: PathCode
  pathcodearray :: "int list list"

text \<open>
  The constructor. It sets \<^verbatim>\<open>applieddata.node\<close> only; the second pointer of the union
  keeps whatever the memory held, the parameter \<open>junk\<close>.
\<close>

definition SoAction_new :: "pointer \<Rightarrow> SoAction" where
  "SoAction_new junk =
     \<lparr>state = None, appliedcode = NODE, applieddata = \<lparr>shared = NULL, origpathlist = junk\<rparr>,
      currentpath = [], terminated = False, currentpathcode = NO_PATH, pathcodearray = []\<rparr>"

text \<open>
  What the kernel calls but does not define: the table of action methods
  (\<^verbatim>\<open>traversalMethods\<close>, a pointer that is null until the constructor of the subclass
  sets it; the table maps a node to the method of its type), the virtual methods
  \<^verbatim>\<open>beginTraversal\<close> and \<^verbatim>\<open>endTraversal\<close>, and \<^verbatim>\<open>SoPath::append(int)\<close>, which looks the
  child up in the scene graph. Each of them may change the action in any way, through
  its public methods, or fail.
\<close>

record kernel =
  traversalMethods :: "(SoNode \<Rightarrow> SoAction \<Rightarrow> error + SoAction) option"
  beginTraversal :: "SoNode option \<Rightarrow> SoAction \<Rightarrow> error + SoAction"
  endTraversal :: "SoNode option \<Rightarrow> SoAction \<Rightarrow> error + SoAction"
  append_index :: "SoPath \<Rightarrow> int \<Rightarrow> error + SoPath"

subsection \<open>Accessors\<close>

definition getWhatAppliedTo :: "SoAction \<Rightarrow> AppliedCode" where
  "getWhatAppliedTo a = appliedcode a"

definition getNodeAppliedTo :: "SoAction \<Rightarrow> pointer" where
  "getNodeAppliedTo a = (if appliedcode a = NODE then shared (applieddata a) else NULL)"

definition getPathAppliedTo :: "SoAction \<Rightarrow> pointer" where
  "getPathAppliedTo a = (if appliedcode a = PATH then shared (applieddata a) else NULL)"

definition getPathListAppliedTo :: "SoAction \<Rightarrow> pointer" where
  "getPathListAppliedTo a = (if appliedcode a = PATH_LIST then shared (applieddata a) else NULL)"

definition getOriginalPathListAppliedTo :: "SoAction \<Rightarrow> pointer" where
  "getOriginalPathListAppliedTo a =
     (if appliedcode a = PATH_LIST then origpathlist (applieddata a) else NULL)"

definition hasTerminated :: "SoAction \<Rightarrow> bool" where
  "hasTerminated a = terminated a"

definition setTerminated :: "bool \<Rightarrow> SoAction \<Rightarrow> SoAction" where
  "setTerminated flag a = a\<lparr>terminated := flag\<rparr>"

definition getState :: "SoAction \<Rightarrow> SoAction" where
  "getState a = (case state a of None \<Rightarrow> a\<lparr>state := Some NewSoState\<rparr> | Some _ \<Rightarrow> a)"

text \<open>
  \<^verbatim>\<open>traverse\<close> calls the method the table holds for the type of the node. Its first
  argument is the pointer \<^verbatim>\<open>traversalMethods\<close>.
\<close>

definition traverse ::
  "(SoNode \<Rightarrow> SoAction \<Rightarrow> error + SoAction) option \<Rightarrow> SoNode option \<Rightarrow> SoAction
     \<Rightarrow> error + SoAction" where
  "traverse methods node a =
     (case methods of None \<Rightarrow> Inl NullPointer
      | Some m \<Rightarrow> (case node of None \<Rightarrow> Inl NullPointer | Some n \<Rightarrow> m n a))"

text \<open>
  The virtual methods as the class SoAction defines them: \<^verbatim>\<open>beginTraversal\<close> calls
  \<^verbatim>\<open>traverse\<close>, \<^verbatim>\<open>endTraversal\<close> does nothing.
\<close>

definition SoAction_kernel ::
  "(SoNode \<Rightarrow> SoAction \<Rightarrow> error + SoAction) option \<Rightarrow> (SoPath \<Rightarrow> int \<Rightarrow> error + SoPath) \<Rightarrow> kernel" where
  "SoAction_kernel methods app =
     \<lparr>traversalMethods = methods, beginTraversal = traverse methods,
      endTraversal = (\<lambda>node a. Inr a), append_index = app\<rparr>"

subsection \<open>pushCurPath\<close>

text \<open>
  The search loop of \<^verbatim>\<open>pushCurPath(int, SoNode *)\<close> over the applied path list. It
  returns the values of \<^verbatim>\<open>i\<close> and \<^verbatim>\<open>len\<close> when the loop is left.
\<close>

function find_path_loop :: "SoPathList \<Rightarrow> SoPath \<Rightarrow> nat \<Rightarrow> int \<Rightarrow> nat \<times> int" where
  "find_path_loop pl cp i len =
     (if i < length pl then
        (if getFullLength (pl ! i) \<ge> getFullLength cp \<and> containsPath (pl ! i) cp
         then (i, getFullLength (pl ! i))
         else find_path_loop pl cp (i + 1) (getFullLength (pl ! i)))
      else (i, len))"
  by pat_completeness auto
termination
  by (relation "measure (\<lambda>(pl, cp, i, len). length pl - i)") auto

declare find_path_loop.simps [simp del]

definition pushCurPath :: "kernel \<Rightarrow> int \<Rightarrow> SoNode option \<Rightarrow> SoAction \<Rightarrow> error + SoAction" where
  "pushCurPath K childindex node a =
     (case (case node of Some n \<Rightarrow> Inr (append_node (currentpath a) node childindex)
            | None \<Rightarrow> append_index K (currentpath a) childindex) of
        Inl e \<Rightarrow> Inl e
      | Inr cp \<Rightarrow>
         (let a1 = a\<lparr>currentpath := cp\<rparr>; curlen = getFullLength cp in
          if currentpathcode a1 = IN_PATH then
            (if getWhatAppliedTo a1 = PATH then
               (case deref_path (shared (applieddata a1)) of
                  Inl e \<Rightarrow> Inl e
                | Inr path \<Rightarrow>
                   (if \<not> curlen \<le> getFullLength path then Inl AssertionFailed
                    else
                      (case getIndex cp (curlen - 1) of
                         Inl e \<Rightarrow> Inl e
                       | Inr ci \<Rightarrow>
                          (case getIndex path (curlen - 1) of
                             Inl e \<Rightarrow> Inl e
                           | Inr pi \<Rightarrow>
                              (if ci \<noteq> pi then Inr (a1\<lparr>currentpathcode := OFF_PATH\<rparr>)
                               else if curlen = getFullLength path
                               then Inr (a1\<lparr>currentpathcode := BELOW_PATH\<rparr>)
                               else Inr a1)))))
             else
               (case deref_pathlist (shared (applieddata a1)) of
                  Inl e \<Rightarrow> Inl e
                | Inr pl \<Rightarrow>
                   (case find_path_loop pl cp 0 (-1) of
                      (i, len) \<Rightarrow>
                        (if i = length pl then Inr (a1\<lparr>currentpathcode := OFF_PATH\<rparr>)
                         else if len = curlen then Inr (a1\<lparr>currentpathcode := BELOW_PATH\<rparr>)
                         else Inr a1))))
          else Inr a1))"

subsection \<open>getPathCode and usePathCode\<close>

text \<open>The loop of \<^verbatim>\<open>usePathCode\<close> that makes sure a scratch list exists for every depth.\<close>

function grow_pathcodearray :: "int list list \<Rightarrow> int \<Rightarrow> int list list" where
  "grow_pathcodearray pca curlen =
     (if int (length pca) < curlen then grow_pathcodearray (pca @ [[]]) curlen else pca)"
  by pat_completeness auto
termination
  by (relation "measure (\<lambda>(pca, curlen). nat curlen - length pca)") auto

declare grow_pathcodearray.simps [simp del]

text \<open>
  The loop of \<^verbatim>\<open>usePathCode\<close> over the applied path list: the paths \<^verbatim>\<open>(*pl)[i]\<close> in
  order, with the running values of \<^verbatim>\<open>previdx\<close> and of the scratch list.
\<close>

fun collect_indices :: "SoPathList \<Rightarrow> SoPath \<Rightarrow> int \<Rightarrow> int \<Rightarrow> int list \<Rightarrow> error + int list" where
  "collect_indices [] cp curlen previdx myarray = Inr myarray"
| "collect_indices (path # rest) cp curlen previdx myarray =
     (if getFullLength path > curlen \<and> containsPath path cp then
        (case getIndex path curlen of
           Inl e \<Rightarrow> Inl e
         | Inr idx \<Rightarrow>
            (if idx \<noteq> previdx then collect_indices rest cp curlen idx (myarray @ [idx])
             else collect_indices rest cp curlen previdx myarray))
      else collect_indices rest cp curlen previdx myarray)"

text \<open>
  \<^verbatim>\<open>usePathCode\<close> returns the two output arguments (\<^verbatim>\<open>numindices\<close>, and the contents of
  the array \<^verbatim>\<open>indices\<close> points to) and the action, whose scratch list of the current
  depth now holds the indices.
\<close>

definition usePathCode :: "SoAction \<Rightarrow> error + (int \<times> int list \<times> SoAction)" where
  "usePathCode a =
     (let curlen = getFullLength (currentpath a);
          pca = grow_pathcodearray (pathcodearray a) curlen in
      if curlen - 1 < 0 then Inl OutOfRange
      else
        (if getWhatAppliedTo a = PATH_LIST then
           (case deref_pathlist (shared (applieddata a)) of
              Inl e \<Rightarrow> Inl e
            | Inr pl \<Rightarrow>
               (case collect_indices pl (currentpath a) curlen (-1) [] of
                  Inl e \<Rightarrow> Inl e
                | Inr myarray \<Rightarrow>
                   Inr (int (length myarray), myarray,
                        a\<lparr>pathcodearray := pca[nat (curlen - 1) := myarray]\<rparr>)))
         else
           (case deref_path (shared (applieddata a)) of
              Inl e \<Rightarrow> Inl e
            | Inr path \<Rightarrow>
               (case getIndex path curlen of
                  Inl e \<Rightarrow> Inl e
                | Inr idx \<Rightarrow>
                   Inr (1, [idx], a\<lparr>pathcodearray := pca[nat (curlen - 1) := [idx]]\<rparr>)))))"

text \<open>
  \<^verbatim>\<open>getPathCode\<close> takes the values its two reference arguments have before the call
  and returns the path code, their values after the call and the action.
\<close>

definition getPathCode ::
  "int \<times> int list \<Rightarrow> SoAction \<Rightarrow> error + (PathCode \<times> (int \<times> int list) \<times> SoAction)" where
  "getPathCode out a =
     (if currentpathcode a = IN_PATH then
        (case usePathCode a of
           Inl e \<Rightarrow> Inl e
         | Inr (numindices, indices, a') \<Rightarrow> Inr (currentpathcode a', (numindices, indices), a'))
      else Inr (currentpathcode a, out, a))"

subsection \<open>apply\<close>

definition apply_node :: "kernel \<Rightarrow> SoNode option \<Rightarrow> SoAction \<Rightarrow> error + SoAction" where
  "apply_node K root a =
     (let storedcode = appliedcode a;
          storedcurr = currentpathcode a;
          storeddata = applieddata a in
      if traversalMethods K = None then Inl AssertionFailed
      else
        (let a1 = a\<lparr>terminated := False\<rparr>;
             a2 = a1\<lparr>currentpathcode := NO_PATH\<rparr>;
             a3 = a2\<lparr>applieddata := (applieddata a2)\<lparr>shared := node_ptr root\<rparr>\<rparr>;
             a4 = a3\<lparr>appliedcode := NODE\<rparr> in
         case (if root \<noteq> None then
                 (let a5 = a4\<lparr>currentpath := setHead (currentpath a4) root\<rparr>;
                      a6 = getState a5 in
                  case beginTraversal K root a6 of
                    Inl e \<Rightarrow> Inl e
                  | Inr a7 \<Rightarrow>
                     (case endTraversal K root a7 of
                        Inl e \<Rightarrow> Inl e
                      | Inr a8 \<Rightarrow> Inr (a8\<lparr>applieddata := (applieddata a8)\<lparr>shared := NULL\<rparr>\<rparr>)))
               else Inr a4) of
           Inl e \<Rightarrow> Inl e
         | Inr b \<Rightarrow>
            Inr (b\<lparr>appliedcode := storedcode, currentpathcode := storedcurr,
                   applieddata := storeddata\<rparr>)))"

definition apply_path :: "kernel \<Rightarrow> SoPath option \<Rightarrow> SoAction \<Rightarrow> error + SoAction" where
  "apply_path K path a =
     (let storedcode = appliedcode a;
          storedcurr = currentpathcode a;
          storeddata = applieddata a in
      if traversalMethods K = None then Inl AssertionFailed
      else
        (let a1 = a\<lparr>terminated := False\<rparr> in
         case path of
           None \<Rightarrow> Inl NullPointer
         | Some p \<Rightarrow>
            (let a2 = a1\<lparr>currentpathcode := (if getFullLength p > 1 then IN_PATH else BELOW_PATH)\<rparr>;
                 a3 = a2\<lparr>applieddata := (applieddata a2)\<lparr>shared := path_ptr path\<rparr>\<rparr>;
                 a4 = a3\<lparr>appliedcode := PATH\<rparr>;
                 a5 = getState a4 in
             case (if getLength p \<noteq> 0 then
                     (case getNode p 0 of
                        Inl e \<Rightarrow> Inl e
                      | Inr node \<Rightarrow>
                         (if node \<noteq> None then
                            (let a6 = a5\<lparr>currentpath := setHead (currentpath a5) node\<rparr> in
                             case beginTraversal K node a6 of
                               Inl e \<Rightarrow> Inl e
                             | Inr a7 \<Rightarrow> endTraversal K node a7)
                          else Inr a5))
                   else Inr a5) of
               Inl e \<Rightarrow> Inl e
             | Inr b \<Rightarrow>
                Inr (b\<lparr>appliedcode := storedcode, currentpathcode := storedcurr,
                       applieddata := storeddata\<rparr>))))"

text \<open>
  The inner loop of the pass per head node: it appends to \<^verbatim>\<open>templist\<close> the paths that
  follow with the same head, and returns \<^verbatim>\<open>i\<close> and \<^verbatim>\<open>templist\<close>.
\<close>

function collect_group ::
  "SoPathList \<Rightarrow> SoNode option \<Rightarrow> nat \<Rightarrow> SoPathList \<Rightarrow> nat \<times> SoPathList" where
  "collect_group sortedlist head i templist =
     (if i < length sortedlist \<and> getHead (sortedlist ! i) = head
      then collect_group sortedlist head (i + 1) (templist @ [sortedlist ! i])
      else (i, templist))"
  by pat_completeness auto
termination
  by (relation "measure (\<lambda>(sortedlist, head, i, templist). length sortedlist - i)") auto

declare collect_group.simps [simp del]

text \<open>
  One turn of the outer loop, from the index \<open>i\<close> of the first path of a group: the
  value of \<^verbatim>\<open>templist\<close> and of \<^verbatim>\<open>i\<close> when the group is complete, and the four
  assignments before \<^verbatim>\<open>beginTraversal\<close>.
\<close>

definition group_templist :: "SoPathList \<Rightarrow> nat \<Rightarrow> SoPathList" where
  "group_templist sortedlist i =
     snd (collect_group sortedlist (getHead (sortedlist ! i)) (i + 1) [sortedlist ! i])"

definition group_next :: "SoPathList \<Rightarrow> nat \<Rightarrow> nat" where
  "group_next sortedlist i =
     fst (collect_group sortedlist (getHead (sortedlist ! i)) (i + 1) [sortedlist ! i])"

definition group_setup :: "SoPathList \<Rightarrow> SoAction \<Rightarrow> SoAction" where
  "group_setup templist a =
     (let a1 = a\<lparr>applieddata := (applieddata a)\<lparr>shared := PathListPtr templist\<rparr>\<rparr>;
          a2 = a1\<lparr>appliedcode := PATH_LIST\<rparr>;
          a3 = a2\<lparr>currentpathcode :=
                    (if getFullLength (templist ! 0) > 1 then IN_PATH else BELOW_PATH)\<rparr> in
      a3\<lparr>currentpath := setHead (currentpath a3) (getHead (templist ! 0))\<rparr>)"

lemma collect_group_index: "i \<le> fst (collect_group sortedlist head i templist)"
proof (induction sortedlist head i templist rule: collect_group.induct)
  case (1 sortedlist head i templist)
  show ?case
  proof (cases "i < length sortedlist \<and> getHead (sortedlist ! i) = head")
    case True
    with "1" have "i + 1 \<le> fst (collect_group sortedlist head (i + 1) (templist @ [sortedlist ! i]))"
      by simp
    with True show ?thesis by (subst collect_group.simps) simp
  next
    case False
    then show ?thesis by (subst collect_group.simps) auto
  qed
qed

lemma group_next_greater: "i < group_next sortedlist i"
  using collect_group_index [of "i + 1" sortedlist "getHead (sortedlist ! i)" "[sortedlist ! i]"]
  by (simp add: group_next_def)

function head_loop :: "kernel \<Rightarrow> SoPathList \<Rightarrow> nat \<Rightarrow> SoAction \<Rightarrow> error + SoAction" where
  "head_loop K sortedlist i a =
     (if i < length sortedlist \<and> \<not> hasTerminated a then
        (case beginTraversal K (getHead (group_templist sortedlist i ! 0))
                (group_setup (group_templist sortedlist i) a) of
           Inl e \<Rightarrow> Inl e
         | Inr a' \<Rightarrow> head_loop K sortedlist (group_next sortedlist i) a')
      else Inr a)"
  by pat_completeness auto
termination
proof (relation "measure (\<lambda>(K, sortedlist, i, a). length sortedlist - i)")
  show "wf (measure (\<lambda>(K, sortedlist, i, a). length sortedlist - i))"
    by simp
next
  fix K :: kernel and sortedlist :: SoPathList and i :: nat and a b :: SoAction
  assume "i < length sortedlist \<and> \<not> hasTerminated a"
  then have "length sortedlist - group_next sortedlist i < length sortedlist - i"
    using group_next_greater [of i sortedlist] by linarith
  then show "((K, sortedlist, group_next sortedlist i, b), (K, sortedlist, i, a))
      \<in> measure (\<lambda>(K, sortedlist, i, a). length sortedlist - i)"
    by simp
qed

declare head_loop.simps [simp del]

definition apply_pathlist :: "kernel \<Rightarrow> SoPathList \<Rightarrow> bool \<Rightarrow> SoAction \<Rightarrow> error + SoAction" where
  "apply_pathlist K pathlist obeysrules a =
     (if traversalMethods K = None then Inl AssertionFailed
      else if length pathlist = 0 then Inr a
      else
        (let storedcode = appliedcode a;
             storedcurr = currentpathcode a;
             storeddata = applieddata a;
             a1 = a\<lparr>terminated := False\<rparr>;
             a2 = getState a1;
             a3 = a2\<lparr>applieddata := (applieddata a2)\<lparr>origpathlist := PathListPtr pathlist\<rparr>\<rparr>;
             a4 = a3\<lparr>applieddata := (applieddata a3)\<lparr>shared := PathListPtr pathlist\<rparr>\<rparr>;
             a5 = a4\<lparr>appliedcode := PATH_LIST\<rparr>;
             a6 = a5\<lparr>currentpathcode :=
                       (if getFullLength (pathlist ! 0) > 1 then IN_PATH else BELOW_PATH)\<rparr> in
         case (if obeysrules then
                 (let a7 = a6\<lparr>currentpath := setHead (currentpath a6) (getHead (pathlist ! 0))\<rparr> in
                  case beginTraversal K (getHead (pathlist ! 0)) a7 of
                    Inl e \<Rightarrow> Inl e
                  | Inr a8 \<Rightarrow> endTraversal K (getHead (pathlist ! 0)) a8)
               else
                 (let sortedlist = uniquify (sort_pl pathlist);
                      num = length sortedlist in
                  if num = 0 then Inl OutOfRange
                  else if getHead (sortedlist ! 0) = getHead (sortedlist ! (num - 1)) then
                    (let a7 = a6\<lparr>currentpath :=
                                   setHead (currentpath a6) (getHead (sortedlist ! 0))\<rparr>;
                         a8 = a7\<lparr>applieddata :=
                                   (applieddata a7)\<lparr>shared := PathListPtr sortedlist\<rparr>\<rparr> in
                     case beginTraversal K (getHead (sortedlist ! 0)) a8 of
                       Inl e \<Rightarrow> Inl e
                     | Inr a9 \<Rightarrow> endTraversal K (getHead (sortedlist ! 0)) a9)
                  else head_loop K sortedlist 0 a6)) of
           Inl e \<Rightarrow> Inl e
         | Inr b \<Rightarrow>
            Inr (b\<lparr>appliedcode := storedcode, currentpathcode := storedcurr,
                   applieddata := storeddata\<rparr>)))"

subsection \<open>Switching the traversal\<close>

definition switchToPathTraversal :: "kernel \<Rightarrow> SoPath option \<Rightarrow> SoAction \<Rightarrow> error + SoAction" where
  "switchToPathTraversal K path a =
     (let storeddata = applieddata a;
          storedcode = appliedcode a;
          storedpathcode = currentpathcode a;
          storedpath = currentpath a;
          a1 = a\<lparr>appliedcode := PATH\<rparr>;
          a2 = a1\<lparr>applieddata := (applieddata a1)\<lparr>shared := path_ptr path\<rparr>\<rparr>;
          a3 = a2\<lparr>currentpathcode := IN_PATH\<rparr> in
      case path of
        None \<Rightarrow> Inl NullPointer
      | Some p \<Rightarrow>
         (case getNode p 0 of
            Inl e \<Rightarrow> Inl e
          | Inr node \<Rightarrow>
             (case traverse (traversalMethods K) node a3 of
                Inl e \<Rightarrow> Inl e
              | Inr b \<Rightarrow>
                 Inr (b\<lparr>currentpath := storedpath, currentpathcode := storedpathcode,
                        applieddata := storeddata, appliedcode := storedcode\<rparr>))))"

definition switchToNodeTraversal :: "kernel \<Rightarrow> SoNode option \<Rightarrow> SoAction \<Rightarrow> error + SoAction" where
  "switchToNodeTraversal K node a =
     (let storeddata = applieddata a;
          storedcode = appliedcode a;
          storedpathcode = currentpathcode a;
          storedpath = currentpath a;
          a1 = a\<lparr>appliedcode := NODE\<rparr>;
          a2 = a1\<lparr>applieddata := (applieddata a1)\<lparr>shared := node_ptr node\<rparr>\<rparr>;
          a3 = a2\<lparr>currentpathcode := NO_PATH\<rparr>;
          a4 = a3\<lparr>currentpath := []\<rparr> in
      case traverse (traversalMethods K) node a4 of
        Inl e \<Rightarrow> Inl e
      | Inr b \<Rightarrow>
         Inr (b\<lparr>currentpath := storedpath, currentpathcode := storedpathcode,
                applieddata := storeddata, appliedcode := storedcode\<rparr>))"

section \<open>A small scene and a search action\<close>

text \<open>
  The scene of the scenarios of section 8 of the specification: the group \<open>G0\<close> (node 0)
  has the children \<open>A\<close>, \<open>B\<close>, \<open>C\<close> (nodes 1, 2, 3), and \<open>A\<close> has the children \<open>A0\<close>, \<open>A1\<close>
  (nodes 4, 5). \<open>H0\<close> (node 7) is the root of a separate graph.
\<close>

definition path_G0 :: SoPath where
  "path_G0 = [(Some 0, -1)]"

definition path_G0_A :: SoPath where
  "path_G0_A = [(Some 0, -1), (Some 1, 0)]"

definition path_G0_B :: SoPath where
  "path_G0_B = [(Some 0, -1), (Some 2, 1)]"

definition path_G0_A_A1 :: SoPath where
  "path_G0_A_A1 = [(Some 0, -1), (Some 1, 0), (Some 5, 1)]"

definition path_H0 :: SoPath where
  "path_H0 = [(Some 7, -1)]"

definition no_append_index :: "SoPath \<Rightarrow> int \<Rightarrow> error + SoPath" where
  "no_append_index p i = Inl OutOfRange"

text \<open>
  The action method of a search for the node \<open>A\<close>: at \<open>G0\<close> it descends to the first
  child and sets the termination flag; at any other node it does nothing.
\<close>

definition find_A :: "SoNode \<Rightarrow> SoAction \<Rightarrow> error + SoAction" where
  "find_A n a =
     (if n = 0 then
        (case pushCurPath (SoAction_kernel None no_append_index) 0 (Some 1) a of
           Inl e \<Rightarrow> Inl e
         | Inr a' \<Rightarrow> Inr (setTerminated True a'))
      else Inr a)"

definition search_kernel :: kernel where
  "search_kernel = SoAction_kernel (Some find_A) no_append_index"

text \<open>An action in the middle of a traversal of the path from \<open>G0\<close> to \<open>B\<close>, at \<open>G0\<close>.\<close>

definition outer_action :: SoAction where
  "outer_action =
     \<lparr>state = Some NewSoState, appliedcode = PATH,
      applieddata = \<lparr>shared = PathPtr path_G0_B, origpathlist = NULL\<rparr>,
      currentpath = [(Some 0, -1)], terminated = False, currentpathcode = IN_PATH,
      pathcodearray = []\<rparr>"

text \<open>An action after a traversal that was aborted.\<close>

definition aborted_action :: SoAction where
  "aborted_action = (SoAction_new NULL)\<lparr>terminated := True\<rparr>"

lemmas scene_defs = path_G0_def path_G0_A_def path_G0_B_def path_G0_A_A1_def path_H0_def
  no_append_index_def find_A_def search_kernel_def outer_action_def aborted_action_def
  SoAction_kernel_def SoAction_new_def

lemmas kernel_defs = apply_node_def apply_path_def apply_pathlist_def traverse_def getState_def
  setHead_def getFullLength_def getLength_def getNode_def getHead_def getIndex_def
  pushCurPath_def append_node_def setTerminated_def hasTerminated_def getWhatAppliedTo_def
  deref_path_def deref_pathlist_def node_ptr_def path_ptr_def containsPath_def
  switchToPathTraversal_def switchToNodeTraversal_def

section \<open>The applied data is saved and restored\<close>

lemma restored_fields:
  "(case m of Inl e \<Rightarrow> Inl e
    | Inr b \<Rightarrow> Inr (b\<lparr>appliedcode := c, currentpathcode := pc, applieddata := d\<rparr>)) = Inr a'
   \<Longrightarrow> appliedcode a' = c \<and> currentpathcode a' = pc \<and> applieddata a' = d"
  by (cases m) auto

lemma apply_node_restores:
  "apply_node K root a = Inr a' \<Longrightarrow>
   appliedcode a' = appliedcode a \<and> currentpathcode a' = currentpathcode a \<and>
   applieddata a' = applieddata a"
  unfolding apply_node_def Let_def
  by (cases "traversalMethods K = None") (auto dest!: restored_fields)

lemma apply_path_restores:
  "apply_path K path a = Inr a' \<Longrightarrow>
   appliedcode a' = appliedcode a \<and> currentpathcode a' = currentpathcode a \<and>
   applieddata a' = applieddata a"
  unfolding apply_path_def Let_def
  by (cases "traversalMethods K = None"; cases path) (auto dest!: restored_fields)

lemma apply_pathlist_restores:
  "apply_pathlist K pl ob a = Inr a' \<Longrightarrow>
   appliedcode a' = appliedcode a \<and> currentpathcode a' = currentpathcode a \<and>
   applieddata a' = applieddata a"
  unfolding apply_pathlist_def Let_def
  by (cases "traversalMethods K = None"; cases "length pl = 0") (auto dest!: restored_fields)

text \<open>
  Claim C4: every apply overload (to a node, to a path, to a path list) saves the applied
  code, the applied data and the current path code on entry and restores exactly those
  values before it returns, on every way out, whatever the traversal did to the action
  in between; in particular an apply issued from inside an action method of an outer
  traversal returns with the three fields of the outer traversal.
\<close>

theorem apply_restores_applied_fields:
  "(apply_node K root a = Inr b \<longrightarrow>
      appliedcode b = appliedcode a \<and> applieddata b = applieddata a \<and>
      currentpathcode b = currentpathcode a) \<and>
   (apply_path K path a = Inr c \<longrightarrow>
      appliedcode c = appliedcode a \<and> applieddata c = applieddata a \<and>
      currentpathcode c = currentpathcode a) \<and>
   (apply_pathlist K pathlist obeysrules a = Inr d \<longrightarrow>
      appliedcode d = appliedcode a \<and> applieddata d = applieddata a \<and>
      currentpathcode d = currentpathcode a)"
  using apply_node_restores [of K root a b] apply_path_restores [of K path a c]
    apply_pathlist_restores [of K pathlist obeysrules a d]
  by blast

lemma nested_apply_node_example:
  "apply_node search_kernel (Some 7) outer_action =
     Inr (outer_action\<lparr>currentpath := [(Some 7, -1)]\<rparr>)"
  by (simp add: kernel_defs scene_defs)

lemma nested_apply_path_example:
  "apply_path search_kernel (Some path_G0_A_A1) outer_action =
     Inr (outer_action\<lparr>currentpath := [(Some 0, -1), (Some 1, 0)], terminated := True\<rparr>)"
  by (simp add: kernel_defs scene_defs)

lemma nested_apply_pathlist_example:
  "apply_pathlist search_kernel [path_G0_A_A1, path_G0_B] True outer_action =
     Inr (outer_action\<lparr>currentpath := [(Some 0, -1), (Some 1, 0)], terminated := True\<rparr>)"
  by (simp add: kernel_defs scene_defs find_path_loop.simps)

theorem apply_restores_applied_fields_witness:
  "apply_node search_kernel (Some 7) outer_action =
     Inr (outer_action\<lparr>currentpath := [(Some 7, -1)]\<rparr>) \<and>
   apply_path search_kernel (Some path_G0_A_A1) outer_action =
     Inr (outer_action\<lparr>currentpath := [(Some 0, -1), (Some 1, 0)], terminated := True\<rparr>) \<and>
   apply_pathlist search_kernel [path_G0_A_A1, path_G0_B] True outer_action =
     Inr (outer_action\<lparr>currentpath := [(Some 0, -1), (Some 1, 0)], terminated := True\<rparr>) \<and>
   appliedcode (outer_action\<lparr>currentpath := [(Some 7, -1)]\<rparr>) = appliedcode outer_action \<and>
   applieddata (outer_action\<lparr>currentpath := [(Some 0, -1), (Some 1, 0)], terminated := True\<rparr>)
     = applieddata outer_action \<and>
   currentpathcode (outer_action\<lparr>currentpath := [(Some 0, -1), (Some 1, 0)], terminated := True\<rparr>)
     = currentpathcode outer_action"
  using apply_restores_applied_fields [of search_kernel "Some 7" outer_action
      "outer_action\<lparr>currentpath := [(Some 7, -1)]\<rparr>" "Some path_G0_A_A1"
      "outer_action\<lparr>currentpath := [(Some 0, -1), (Some 1, 0)], terminated := True\<rparr>"
      "[path_G0_A_A1, path_G0_B]" True
      "outer_action\<lparr>currentpath := [(Some 0, -1), (Some 1, 0)], terminated := True\<rparr>"]
    nested_apply_node_example nested_apply_path_example nested_apply_pathlist_example
  by blast

section \<open>The accessors of the applied data\<close>

text \<open>
  Claim C10: in every state of the action the accessors agree with the applied code:
  \<open>getNodeAppliedTo\<close> returns the stored node pointer exactly when \<open>getWhatAppliedTo\<close> is
  \<open>NODE\<close> and the null pointer otherwise, \<open>getPathAppliedTo\<close> the stored path pointer
  exactly when it is \<open>PATH\<close>, \<open>getPathListAppliedTo\<close> and \<open>getOriginalPathListAppliedTo\<close>
  the stored (possibly reorganised, respectively original) path list exactly when it is
  \<open>PATH_LIST\<close>.
\<close>

theorem applied_accessors_agree:
  "getNodeAppliedTo a = (if getWhatAppliedTo a = NODE then shared (applieddata a) else NULL) \<and>
   getPathAppliedTo a = (if getWhatAppliedTo a = PATH then shared (applieddata a) else NULL) \<and>
   getPathListAppliedTo a =
     (if getWhatAppliedTo a = PATH_LIST then shared (applieddata a) else NULL) \<and>
   getOriginalPathListAppliedTo a =
     (if getWhatAppliedTo a = PATH_LIST then origpathlist (applieddata a) else NULL)"
  by (simp add: getNodeAppliedTo_def getPathAppliedTo_def getPathListAppliedTo_def
      getOriginalPathListAppliedTo_def getWhatAppliedTo_def)

section \<open>Switching to another traversal\<close>

lemma switch_restored_fields:
  "(case m of Inl e \<Rightarrow> Inl e
    | Inr b \<Rightarrow> Inr (b\<lparr>currentpath := cp, currentpathcode := pc, applieddata := d,
                      appliedcode := c\<rparr>)) = Inr a'
   \<Longrightarrow> appliedcode a' = c \<and> applieddata a' = d \<and> currentpathcode a' = pc \<and> currentpath a' = cp"
  by (cases m) auto

lemma switchToPathTraversal_restores:
  "switchToPathTraversal K path a = Inr b \<Longrightarrow>
   appliedcode b = appliedcode a \<and> applieddata b = applieddata a \<and>
   currentpathcode b = currentpathcode a \<and> currentpath b = currentpath a"
  unfolding switchToPathTraversal_def Let_def
  by (cases path) (auto split: sum.splits dest!: switch_restored_fields)

lemma switchToNodeTraversal_restores:
  "switchToNodeTraversal K node a = Inr b \<Longrightarrow>
   appliedcode b = appliedcode a \<and> applieddata b = applieddata a \<and>
   currentpathcode b = currentpathcode a \<and> currentpath b = currentpath a"
  unfolding switchToNodeTraversal_def Let_def
  by (auto dest!: switch_restored_fields)

text \<open>
  Claim C9: \<open>switchToPathTraversal\<close> and \<open>switchToNodeTraversal\<close> save the applied code,
  the applied data, the current path code and the current path, configure the action for
  the new target, call \<open>traverse\<close> on the head of the target (the result does not depend
  on \<open>beginTraversal\<close> and \<open>endTraversal\<close>, which are not called), and restore the four
  saved fields before they return.
\<close>

theorem switch_traversal_saves_and_restores:
  "(switchToPathTraversal K path a = Inr b \<longrightarrow>
      appliedcode b = appliedcode a \<and> applieddata b = applieddata a \<and>
      currentpathcode b = currentpathcode a \<and> currentpath b = currentpath a) \<and>
   (switchToNodeTraversal K node a = Inr c \<longrightarrow>
      appliedcode c = appliedcode a \<and> applieddata c = applieddata a \<and>
      currentpathcode c = currentpathcode a \<and> currentpath c = currentpath a) \<and>
   switchToPathTraversal (K\<lparr>beginTraversal := bt, endTraversal := et\<rparr>) path a =
     switchToPathTraversal K path a \<and>
   switchToNodeTraversal (K\<lparr>beginTraversal := bt, endTraversal := et\<rparr>) node a =
     switchToNodeTraversal K node a \<and>
   (getNode p 0 = Inr head \<longrightarrow>
      switchToPathTraversal K (Some p) a =
        (case traverse (traversalMethods K) head
                (a\<lparr>appliedcode := PATH,
                   applieddata := (applieddata a)\<lparr>shared := PathPtr p\<rparr>,
                   currentpathcode := IN_PATH\<rparr>) of
           Inl e \<Rightarrow> Inl e
         | Inr s \<Rightarrow>
            Inr (s\<lparr>currentpath := currentpath a, currentpathcode := currentpathcode a,
                   applieddata := applieddata a, appliedcode := appliedcode a\<rparr>))) \<and>
   switchToNodeTraversal K node a =
     (case traverse (traversalMethods K) node
             (a\<lparr>appliedcode := NODE,
                applieddata := (applieddata a)\<lparr>shared := node_ptr node\<rparr>,
                currentpathcode := NO_PATH, currentpath := []\<rparr>) of
        Inl e \<Rightarrow> Inl e
      | Inr s \<Rightarrow>
         Inr (s\<lparr>currentpath := currentpath a, currentpathcode := currentpathcode a,
                applieddata := applieddata a, appliedcode := appliedcode a\<rparr>))"
proof -
  have "switchToPathTraversal (K\<lparr>beginTraversal := bt, endTraversal := et\<rparr>) path a =
      switchToPathTraversal K path a"
    by (simp add: switchToPathTraversal_def Let_def split: option.splits sum.splits)
  moreover have "switchToNodeTraversal (K\<lparr>beginTraversal := bt, endTraversal := et\<rparr>) node a =
      switchToNodeTraversal K node a"
    by (simp add: switchToNodeTraversal_def Let_def split: sum.splits)
  moreover have "getNode p 0 = Inr head \<longrightarrow>
      switchToPathTraversal K (Some p) a =
        (case traverse (traversalMethods K) head
                (a\<lparr>appliedcode := PATH,
                   applieddata := (applieddata a)\<lparr>shared := PathPtr p\<rparr>,
                   currentpathcode := IN_PATH\<rparr>) of
           Inl e \<Rightarrow> Inl e
         | Inr s \<Rightarrow>
            Inr (s\<lparr>currentpath := currentpath a, currentpathcode := currentpathcode a,
                   applieddata := applieddata a, appliedcode := appliedcode a\<rparr>))"
    by (simp add: switchToPathTraversal_def path_ptr_def Let_def split: sum.splits)
  moreover have "switchToNodeTraversal K node a =
     (case traverse (traversalMethods K) node
             (a\<lparr>appliedcode := NODE,
                applieddata := (applieddata a)\<lparr>shared := node_ptr node\<rparr>,
                currentpathcode := NO_PATH, currentpath := []\<rparr>) of
        Inl e \<Rightarrow> Inl e
      | Inr s \<Rightarrow>
         Inr (s\<lparr>currentpath := currentpath a, currentpathcode := currentpathcode a,
                applieddata := applieddata a, appliedcode := appliedcode a\<rparr>))"
    by (simp add: switchToNodeTraversal_def Let_def split: sum.splits)
  ultimately show ?thesis
    using switchToPathTraversal_restores [of K path a b]
      switchToNodeTraversal_restores [of K node a c]
    by blast
qed

lemma switchToPathTraversal_example:
  "switchToPathTraversal search_kernel (Some path_G0_A) outer_action =
     Inr (outer_action\<lparr>terminated := True\<rparr>)"
  by (simp add: kernel_defs scene_defs)

lemma switchToNodeTraversal_example:
  "switchToNodeTraversal search_kernel (Some 0) outer_action =
     Inr (outer_action\<lparr>terminated := True\<rparr>)"
  by (simp add: kernel_defs scene_defs)

theorem switch_traversal_saves_and_restores_witness:
  "switchToPathTraversal search_kernel (Some path_G0_A) outer_action =
     Inr (outer_action\<lparr>terminated := True\<rparr>) \<and>
   switchToNodeTraversal search_kernel (Some 0) outer_action =
     Inr (outer_action\<lparr>terminated := True\<rparr>) \<and>
   getNode path_G0_A 0 = Inr (Some 0) \<and>
   appliedcode (outer_action\<lparr>terminated := True\<rparr>) = appliedcode outer_action \<and>
   applieddata (outer_action\<lparr>terminated := True\<rparr>) = applieddata outer_action \<and>
   currentpathcode (outer_action\<lparr>terminated := True\<rparr>) = currentpathcode outer_action \<and>
   currentpath (outer_action\<lparr>terminated := True\<rparr>) = currentpath outer_action"
proof -
  have h: "getNode path_G0_A 0 = Inr (Some 0)"
    by (simp add: getNode_def getFullLength_def path_G0_A_def)
  show ?thesis
    using switch_traversal_saves_and_restores [of search_kernel "Some path_G0_A" outer_action
        "outer_action\<lparr>terminated := True\<rparr>" "Some 0" "outer_action\<lparr>terminated := True\<rparr>"
        "beginTraversal search_kernel" "endTraversal search_kernel" path_G0_A "Some 0"]
      switchToPathTraversal_example switchToNodeTraversal_example h
    by blast
qed

section \<open>The termination flag\<close>

definition keeps_terminated :: "(SoNode option \<Rightarrow> SoAction \<Rightarrow> error + SoAction) \<Rightarrow> bool" where
  "keeps_terminated f = (\<forall>n s s'. f n s = Inr s' \<longrightarrow> terminated s' = terminated s)"

lemma keeps_terminatedD: "keeps_terminated f \<Longrightarrow> f n s = Inr s' \<Longrightarrow> terminated s' = terminated s"
  by (auto simp: keeps_terminated_def)

lemma getState_terminated: "terminated (getState a) = terminated a"
  by (simp add: getState_def split: option.splits)

lemma apply_node_clears_terminated:
  assumes "apply_node K root a = Inr b"
    and "keeps_terminated (beginTraversal K)" and "keeps_terminated (endTraversal K)"
  shows "\<not> hasTerminated b"
  using assms unfolding apply_node_def Let_def hasTerminated_def
  by (cases "traversalMethods K = None")
    (auto split: if_splits sum.splits dest!: keeps_terminatedD simp: getState_terminated)

lemma apply_path_clears_terminated:
  assumes "apply_path K path a = Inr b"
    and "keeps_terminated (beginTraversal K)" and "keeps_terminated (endTraversal K)"
  shows "\<not> hasTerminated b"
  using assms unfolding apply_path_def Let_def hasTerminated_def
  by (cases "traversalMethods K = None"; cases path)
    (auto split: if_splits sum.splits dest!: keeps_terminatedD simp: getState_terminated)

lemma group_setup_terminated: "terminated (group_setup templist a) = terminated a"
  by (simp add: group_setup_def Let_def)

lemma head_loop_keeps_terminated:
  "head_loop K sortedlist i a = Inr b \<Longrightarrow> keeps_terminated (beginTraversal K) \<Longrightarrow>
   terminated b = terminated a"
proof (induction K sortedlist i a rule: head_loop.induct)
  case (1 K sortedlist i a)
  show ?case
  proof (cases "i < length sortedlist \<and> \<not> hasTerminated a")
    case False
    with "1.prems" show ?thesis by (simp add: head_loop.simps)
  next
    case True
    with "1.prems"(1) obtain a' where
      bt: "beginTraversal K (getHead (group_templist sortedlist i ! 0))
             (group_setup (group_templist sortedlist i) a) = Inr a'"
      and rest: "head_loop K sortedlist (group_next sortedlist i) a' = Inr b"
      by (subst (asm) head_loop.simps) (auto split: sum.splits)
    from "1.IH" [OF True bt rest "1.prems"(2)] have "terminated b = terminated a'" .
    also from keeps_terminatedD [OF "1.prems"(2) bt] have "terminated a' = terminated a"
      by (simp add: group_setup_terminated)
    finally show ?thesis .
  qed
qed

lemma apply_pathlist_clears_terminated:
  assumes "apply_pathlist K pathlist obeysrules a = Inr b" and "pathlist \<noteq> []"
    and "keeps_terminated (beginTraversal K)" and "keeps_terminated (endTraversal K)"
  shows "\<not> hasTerminated b"
  using assms unfolding apply_pathlist_def Let_def hasTerminated_def
  by (cases "traversalMethods K = None")
    (auto split: if_splits sum.splits dest!: keeps_terminatedD head_loop_keeps_terminated
      simp: getState_terminated)

text \<open>
  Claim C5: every apply overload clears the termination flag before the traversal, so
  that for every input, a path list of length zero included, \<open>hasTerminated\<close> is false
  after an apply during which no action method set the flag. The code returns from the
  apply to an empty path list before it clears the flag: applied to the empty list, an
  action that was aborted in its last traversal still reports that it has terminated.
\<close>

theorem apply_empty_pathlist_keeps_terminated:
  "hasTerminated aborted_action \<and>
   apply_pathlist search_kernel [] False aborted_action = Inr aborted_action \<and>
   apply_pathlist search_kernel [] True aborted_action = Inr aborted_action"
  by (simp add: apply_pathlist_def hasTerminated_def scene_defs)

section \<open>Applying to a null pointer\<close>

text \<open>
  Claim C6, as amended: applying an action whose table of methods is set to a null node
  performs no traversal (neither \<open>beginTraversal\<close> nor \<open>endTraversal\<close> is called) and
  returns with the action unchanged but for the termination flag, which is cleared.
\<close>

theorem apply_null_node_clears_flag_only:
  "traversalMethods K \<noteq> None \<Longrightarrow> apply_node K None a = Inr (a\<lparr>terminated := False\<rparr>)"
  by (simp add: apply_node_def node_ptr_def Let_def)

theorem apply_null_node_clears_flag_only_witness:
  "traversalMethods search_kernel \<noteq> None \<and>
   apply_node search_kernel None aborted_action = Inr (aborted_action\<lparr>terminated := False\<rparr>)"
proof -
  have h: "traversalMethods search_kernel \<noteq> None"
    by (simp add: scene_defs)
  show ?thesis
    using h apply_null_node_clears_flag_only [OF h, of aborted_action] by simp
qed

text \<open>
  Claim C6, as stated, fails: applied to a null node the action does not keep its
  observable state (the termination flag of an aborted action is cleared), and applied
  to a null path the code dereferences the pointer and does not return.
\<close>

theorem apply_null_changes_action:
  "hasTerminated aborted_action \<and>
   apply_node search_kernel None aborted_action = Inr (aborted_action\<lparr>terminated := False\<rparr>) \<and>
   \<not> hasTerminated (aborted_action\<lparr>terminated := False\<rparr>) \<and>
   apply_path search_kernel None aborted_action = Inl NullPointer"
  by (simp add: apply_node_def apply_path_def node_ptr_def hasTerminated_def scene_defs)

section \<open>The path code when the action is applied to a path\<close>

text \<open>
  The action as \<^verbatim>\<open>apply(SoPath *)\<close> hands it to \<open>beginTraversal\<close> (lemma
  \<open>apply_path_begins_with\<close> below).
\<close>

definition path_traversal_start :: "SoPath \<Rightarrow> SoAction \<Rightarrow> SoAction" where
  "path_traversal_start p a =
     (getState (a\<lparr>terminated := False,
                  currentpathcode := (if getFullLength p > 1 then IN_PATH else BELOW_PATH),
                  applieddata := (applieddata a)\<lparr>shared := PathPtr p\<rparr>,
                  appliedcode := PATH\<rparr>))\<lparr>currentpath := [(getHead p, -1)]\<rparr>"

text \<open>
  What a group node does on the way down: one \<open>pushCurPath\<close> for each step, the child
  index and the child of each step given.
\<close>

fun descend :: "kernel \<Rightarrow> (SoNode option \<times> int) list \<Rightarrow> SoAction \<Rightarrow> error + SoAction" where
  "descend K [] a = Inr a"
| "descend K (s # steps) a =
     (case pushCurPath K (snd s) (fst s) a of
        Inl e \<Rightarrow> Inl e
      | Inr a' \<Rightarrow> descend K steps a')"

lemma case_sum_assoc:
  "(case (case m of Inl e \<Rightarrow> Inl e | Inr x \<Rightarrow> f x) of Inl e \<Rightarrow> Inl e | Inr y \<Rightarrow> g y) =
   (case m of Inl e \<Rightarrow> Inl e | Inr x \<Rightarrow> (case f x of Inl e \<Rightarrow> Inl e | Inr y \<Rightarrow> g y))"
  by (cases m) auto

lemma apply_path_begins_with:
  assumes "traversalMethods K \<noteq> None" and "getHead p = Some h"
  shows "apply_path K (Some p) a =
     (case beginTraversal K (Some h) (path_traversal_start p a) of
        Inl e \<Rightarrow> Inl e
      | Inr a7 \<Rightarrow>
         (case endTraversal K (Some h) a7 of
            Inl e \<Rightarrow> Inl e
          | Inr b \<Rightarrow>
             Inr (b\<lparr>appliedcode := appliedcode a, currentpathcode := currentpathcode a,
                    applieddata := applieddata a\<rparr>)))"
proof -
  from assms(2) obtain s rest where p: "p = s # rest" and s: "fst s = Some h"
    by (auto simp: getHead_def split: list.splits)
  have st: "\<And>x y. (getState x)\<lparr>currentpath := y\<rparr> = getState (x\<lparr>currentpath := y\<rparr>)"
    by (simp add: getState_def split: option.splits)
  from assms(1) obtain m where m: "traversalMethods K = Some m"
    by auto
  show ?thesis
    by (simp add: apply_path_def path_traversal_start_def Let_def p s m getLength_def getNode_def
        getFullLength_def getHead_def setHead_def path_ptr_def st case_sum_assoc)
qed

lemma pushCurPath_not_in_path:
  "currentpathcode a \<noteq> IN_PATH \<Longrightarrow>
   pushCurPath K idx (Some c) a = Inr (a\<lparr>currentpath := currentpath a @ [(Some c, idx)]\<rparr>)"
  by (simp add: pushCurPath_def append_node_def Let_def)

lemma pushCurPath_path_step:
  assumes "currentpathcode a = IN_PATH" and "appliedcode a = PATH"
    and "shared (applieddata a) = PathPtr P"
    and "getFullLength (append_node (currentpath a) (Some c) idx) \<le> getFullLength P"
  shows "pushCurPath K idx (Some c) a =
     (let cp = append_node (currentpath a) (Some c) idx; curlen = getFullLength cp in
      Inr (a\<lparr>currentpath := cp,
             currentpathcode :=
               (if getIndex cp (curlen - 1) \<noteq> getIndex P (curlen - 1) then OFF_PATH
                else if curlen = getFullLength P then BELOW_PATH else IN_PATH)\<rparr>))"
  using assms
  by (simp add: pushCurPath_def Let_def getWhatAppliedTo_def deref_path_def getIndex_def
      getFullLength_def append_node_def)

lemma pushCurPath_path_step_index:
  assumes "currentpathcode a = IN_PATH" and "appliedcode a = PATH"
    and "shared (applieddata a) = PathPtr P" and "length (currentpath a) < length P"
  shows "pushCurPath K idx (Some c) a =
      Inr (a\<lparr>currentpath := currentpath a @ [(Some c, idx)],
             currentpathcode :=
               (if idx \<noteq> snd (P ! length (currentpath a)) then OFF_PATH
                else if Suc (length (currentpath a)) = length P then BELOW_PATH
                else IN_PATH)\<rparr>)"
  using assms
  by (simp add: pushCurPath_def Let_def getWhatAppliedTo_def deref_path_def getIndex_def
      getFullLength_def append_node_def nth_append)

lemma descend_append:
  "descend K (xs @ ys) a =
     (case descend K xs a of Inl e \<Rightarrow> Inl e | Inr a' \<Rightarrow> descend K ys a')"
  by (induction xs arbitrary: a) (auto split: sum.splits)

lemma descend_not_in_path:
  "currentpathcode a \<noteq> IN_PATH \<Longrightarrow> \<forall>s \<in> set steps. fst s \<noteq> None \<Longrightarrow>
   descend K steps a = Inr (a\<lparr>currentpath := currentpath a @ steps\<rparr>)"
proof (induction steps arbitrary: a)
  case Nil
  then show ?case by simp
next
  case (Cons s steps)
  from Cons.prems(2) obtain c where c: "fst s = Some c" by auto
  then have s: "s = (Some c, snd s)" by (cases s) simp
  have "pushCurPath K (snd s) (fst s) a = Inr (a\<lparr>currentpath := currentpath a @ [s]\<rparr>)"
    using pushCurPath_not_in_path [OF Cons.prems(1), of K "snd s" c] c s by simp
  moreover have "descend K steps (a\<lparr>currentpath := currentpath a @ [s]\<rparr>) =
      Inr (a\<lparr>currentpath := currentpath a @ s # steps\<rparr>)"
    using Cons.IH [of "a\<lparr>currentpath := currentpath a @ [s]\<rparr>"] Cons.prems by simp
  ultimately show ?case by simp
qed

lemma descend_along_path:
  assumes "appliedcode a = PATH" and "shared (applieddata a) = PathPtr P"
    and "length (currentpath a) = 1"
    and "currentpathcode a = (if getFullLength P > 1 then IN_PATH else BELOW_PATH)"
    and "\<forall>s \<in> set (tl P). fst s \<noteq> None"
    and "k < length P"
  shows "descend K (take k (tl P)) a =
     Inr (a\<lparr>currentpath := currentpath a @ take k (tl P),
            currentpathcode := (if int k + 1 < getFullLength P then IN_PATH else BELOW_PATH)\<rparr>)"
  using assms(6)
proof (induction k)
  case 0
  with assms(4) show ?case by (simp add: getFullLength_def)
next
  case (Suc k)
  let ?b = "a\<lparr>currentpath := currentpath a @ take k (tl P),
            currentpathcode := (if int k + 1 < getFullLength P then IN_PATH else BELOW_PATH)\<rparr>"
  from Suc have IH: "descend K (take k (tl P)) a = Inr ?b" by simp
  from Suc.prems have k: "k < length (tl P)" by simp
  then have tk: "take (Suc k) (tl P) = take k (tl P) @ [tl P ! k]"
    by (simp add: take_Suc_conv_app_nth)
  from k assms(5) obtain c where c: "fst (tl P ! k) = Some c"
    by (metis nth_mem option.exhaust)
  have nthP: "tl P ! k = P ! Suc k"
    using Suc.prems by (cases P) auto
  have inpath: "currentpathcode ?b = IN_PATH"
    using Suc.prems by (simp add: getFullLength_def)
  have len: "length (currentpath ?b) = Suc k"
    using assms(3) k by simp
  have "pushCurPath K (snd (tl P ! k)) (Some c) ?b =
      Inr (?b\<lparr>currentpath := currentpath ?b @ [(Some c, snd (tl P ! k))],
             currentpathcode :=
               (if snd (tl P ! k) \<noteq> snd (P ! length (currentpath ?b)) then OFF_PATH
                else if Suc (length (currentpath ?b)) = length P then BELOW_PATH
                else IN_PATH)\<rparr>)"
    using pushCurPath_path_step_index [OF inpath, of P K "snd (tl P ! k)" c] assms(1,2) len Suc.prems
    by simp
  then have "pushCurPath K (snd (tl P ! k)) (fst (tl P ! k)) ?b =
      Inr (a\<lparr>currentpath := currentpath a @ take (Suc k) (tl P),
             currentpathcode :=
               (if int (Suc k) + 1 < getFullLength P then IN_PATH else BELOW_PATH)\<rparr>)"
    using c len nthP tk Suc.prems
    by (auto simp: getFullLength_def) (metis prod.collapse)+
  then show ?case
    by (simp add: tk descend_append IH)
qed

lemma descend_off_path:
  assumes "appliedcode a = PATH" and "shared (applieddata a) = PathPtr P"
    and "length (currentpath a) = 1"
    and "currentpathcode a = (if getFullLength P > 1 then IN_PATH else BELOW_PATH)"
    and "\<forall>s \<in> set (tl P). fst s \<noteq> None"
    and "int k + 1 < getFullLength P" and "i \<noteq> snd (P ! Suc k)"
    and "\<forall>s \<in> set steps. fst s \<noteq> None"
  shows "descend K (take k (tl P) @ (Some n, i) # steps) a =
     Inr (a\<lparr>currentpath := currentpath a @ take k (tl P) @ (Some n, i) # steps,
            currentpathcode := OFF_PATH\<rparr>)"
proof -
  let ?b = "a\<lparr>currentpath := currentpath a @ take k (tl P),
            currentpathcode := (if int k + 1 < getFullLength P then IN_PATH else BELOW_PATH)\<rparr>"
  from assms(6) have k: "k < length P" "Suc k < length P"
    by (simp_all add: getFullLength_def)
  have along: "descend K (take k (tl P)) a = Inr ?b"
    by (rule descend_along_path [OF assms(1-5) k(1)])
  have len: "length (currentpath ?b) = Suc k"
    using assms(3) k by simp
  have "pushCurPath K i (Some n) ?b =
      Inr (?b\<lparr>currentpath := currentpath ?b @ [(Some n, i)],
             currentpathcode :=
               (if i \<noteq> snd (P ! length (currentpath ?b)) then OFF_PATH
                else if Suc (length (currentpath ?b)) = length P then BELOW_PATH
                else IN_PATH)\<rparr>)"
    using pushCurPath_path_step_index [of ?b P K i n] assms(1,2,6) len k by simp
  then have push: "pushCurPath K i (Some n) ?b =
      Inr (a\<lparr>currentpath := currentpath a @ take k (tl P) @ [(Some n, i)],
             currentpathcode := OFF_PATH\<rparr>)"
    using len assms(7) by simp
  have "descend K steps (a\<lparr>currentpath := currentpath a @ take k (tl P) @ [(Some n, i)],
             currentpathcode := OFF_PATH\<rparr>) =
      Inr (a\<lparr>currentpath := currentpath a @ take k (tl P) @ (Some n, i) # steps,
             currentpathcode := OFF_PATH\<rparr>)"
    using descend_not_in_path [of "a\<lparr>currentpath := currentpath a @ take k (tl P) @ [(Some n, i)],
             currentpathcode := OFF_PATH\<rparr>" steps K] assms(8)
    by simp
  with along push show ?thesis
    by (simp add: descend_append)
qed

text \<open>
  Claim C1: for an action applied to a single path, whenever the current path code is
  \<open>IN_PATH\<close> and \<open>pushCurPath\<close> descends into a child, the child is appended to the current
  path and then, with \<open>curlen\<close> the full length of the current path: if the index of the
  current path at \<open>curlen - 1\<close> differs from that of the applied path the code becomes
  \<open>OFF_PATH\<close>, otherwise if \<open>curlen\<close> is the full length of the applied path it becomes
  \<open>BELOW_PATH\<close>, otherwise it stays \<open>IN_PATH\<close> (the assertion of the code,
  \<open>curlen \<le> getFullLength\<close> of the applied path, is the condition under which the method
  returns). Consequently, from the action as apply hands it to the traversal and
  following the applied path's own indices, the code is \<open>IN_PATH\<close> strictly above the tail
  of the path and \<open>BELOW_PATH\<close> at the tail, and a step with another index makes it
  \<open>OFF_PATH\<close>, which every further descent keeps.
\<close>

theorem path_code_on_applied_path:
  assumes "appliedcode a = PATH" and "shared (applieddata a) = PathPtr P"
  shows
    "(currentpathcode a = IN_PATH \<and>
      getFullLength (append_node (currentpath a) (Some c) idx) \<le> getFullLength P \<longrightarrow>
        pushCurPath K idx (Some c) a =
          (let cp = append_node (currentpath a) (Some c) idx; curlen = getFullLength cp in
           Inr (a\<lparr>currentpath := cp,
                  currentpathcode :=
                    (if getIndex cp (curlen - 1) \<noteq> getIndex P (curlen - 1) then OFF_PATH
                     else if curlen = getFullLength P then BELOW_PATH else IN_PATH)\<rparr>))) \<and>
     (length (currentpath a) = 1 \<and>
      currentpathcode a = (if getFullLength P > 1 then IN_PATH else BELOW_PATH) \<and>
      (\<forall>s \<in> set (tl P). fst s \<noteq> None) \<longrightarrow>
        (k < length P \<longrightarrow>
           descend K (take k (tl P)) a =
             Inr (a\<lparr>currentpath := currentpath a @ take k (tl P),
                    currentpathcode :=
                      (if int k + 1 < getFullLength P then IN_PATH else BELOW_PATH)\<rparr>)) \<and>
        (int k + 1 < getFullLength P \<and> i \<noteq> snd (P ! Suc k) \<and>
         (\<forall>s \<in> set steps. fst s \<noteq> None) \<longrightarrow>
           descend K (take k (tl P) @ (Some n, i) # steps) a =
             Inr (a\<lparr>currentpath := currentpath a @ take k (tl P) @ (Some n, i) # steps,
                    currentpathcode := OFF_PATH\<rparr>)))"
  using pushCurPath_path_step [OF _ assms, of c idx K]
    descend_along_path [OF assms, of k K]
    descend_off_path [OF assms, of k i steps K n]
  by blast

lemma path_traversal_start_example:
  "path_traversal_start path_G0_A_A1 (SoAction_new NULL) =
     \<lparr>state = Some NewSoState, appliedcode = PATH,
      applieddata = \<lparr>shared = PathPtr path_G0_A_A1, origpathlist = NULL\<rparr>,
      currentpath = [(Some 0, -1)], terminated = False, currentpathcode = IN_PATH,
      pathcodearray = []\<rparr>"
  by (simp add: path_traversal_start_def getState_def getFullLength_def getHead_def scene_defs)

theorem path_code_on_applied_path_witness:
  "appliedcode (path_traversal_start path_G0_A_A1 (SoAction_new NULL)) = PATH \<and>
   shared (applieddata (path_traversal_start path_G0_A_A1 (SoAction_new NULL))) =
     PathPtr path_G0_A_A1 \<and>
   currentpathcode (path_traversal_start path_G0_A_A1 (SoAction_new NULL)) = IN_PATH \<and>
   pushCurPath search_kernel 0 (Some 1) (path_traversal_start path_G0_A_A1 (SoAction_new NULL)) =
     Inr ((path_traversal_start path_G0_A_A1 (SoAction_new NULL))
            \<lparr>currentpath := [(Some 0, -1), (Some 1, 0)], currentpathcode := IN_PATH\<rparr>) \<and>
   descend search_kernel [(Some 1, 0)] (path_traversal_start path_G0_A_A1 (SoAction_new NULL)) =
     Inr ((path_traversal_start path_G0_A_A1 (SoAction_new NULL))
            \<lparr>currentpath := [(Some 0, -1), (Some 1, 0)], currentpathcode := IN_PATH\<rparr>) \<and>
   descend search_kernel [(Some 1, 0), (Some 4, 0), (Some 9, 0)]
       (path_traversal_start path_G0_A_A1 (SoAction_new NULL)) =
     Inr ((path_traversal_start path_G0_A_A1 (SoAction_new NULL))
            \<lparr>currentpath := [(Some 0, -1), (Some 1, 0), (Some 4, 0), (Some 9, 0)],
              currentpathcode := OFF_PATH\<rparr>)"
proof -
  let ?a = "path_traversal_start path_G0_A_A1 (SoAction_new NULL)"
  have h1: "appliedcode ?a = PATH" and h2: "shared (applieddata ?a) = PathPtr path_G0_A_A1"
    by (simp_all add: path_traversal_start_example)
  have h3: "currentpathcode ?a = IN_PATH \<and>
      getFullLength (append_node (currentpath ?a) (Some 1) 0) \<le> getFullLength path_G0_A_A1"
    unfolding path_traversal_start_example
    by (simp add: getFullLength_def append_node_def path_G0_A_A1_def)
  have h4: "length (currentpath ?a) = 1 \<and>
      currentpathcode ?a = (if getFullLength path_G0_A_A1 > 1 then IN_PATH else BELOW_PATH) \<and>
      (\<forall>s \<in> set (tl path_G0_A_A1). fst s \<noteq> None)"
    unfolding path_traversal_start_example
    by (simp add: getFullLength_def path_G0_A_A1_def)
  have h5: "(1::nat) < length path_G0_A_A1"
    by (simp add: path_G0_A_A1_def)
  have h6: "int 1 + 1 < getFullLength path_G0_A_A1 \<and> 0 \<noteq> snd (path_G0_A_A1 ! Suc 1) \<and>
      (\<forall>s \<in> set [(Some (9::nat), 0::int)]. fst s \<noteq> None)"
    by (simp add: getFullLength_def path_G0_A_A1_def)
  show ?thesis
    using path_code_on_applied_path [OF h1 h2, where c = 1 and idx = 0 and K = search_kernel
        and k = 1 and i = 0 and n = 4 and steps = "[(Some 9, 0)]"]
      h1 h2 h3 h4 h5 h6
    unfolding path_traversal_start_example
    by (simp add: Let_def kernel_defs scene_defs)
qed

lemma pushCurPath_keeps_assertion:
  assumes "appliedcode a = PATH" and "shared (applieddata a) = PathPtr P"
    and "currentpathcode a = IN_PATH \<longrightarrow> length (currentpath a) < length P"
  shows "\<exists>b. pushCurPath K idx (Some c) a = Inr b \<and> appliedcode b = PATH \<and>
      shared (applieddata b) = PathPtr P \<and>
      (currentpathcode b = IN_PATH \<longrightarrow> length (currentpath b) < length P)"
proof (cases "currentpathcode a = IN_PATH")
  case True
  with assms(3) have l: "length (currentpath a) < length P" by simp
  from pushCurPath_path_step_index [OF True assms(1,2) l, of K idx c] assms(1,2) l
  show ?thesis by auto
next
  case False
  from pushCurPath_not_in_path [OF False, of K idx c] assms(1,2) False
  show ?thesis by simp
qed

section \<open>The path code when the action is applied to a path list\<close>

lemma find_path_loop_none:
  "i \<le> length pl \<Longrightarrow>
   find (\<lambda>path. getFullLength cp \<le> getFullLength path \<and> containsPath path cp) (drop i pl) = None
   \<Longrightarrow> fst (find_path_loop pl cp i len) = length pl"
proof (induction pl cp i len rule: find_path_loop.induct)
  case (1 pl cp i len)
  show ?case
  proof (cases "i < length pl")
    case False
    with "1.prems" show ?thesis by (simp add: find_path_loop.simps)
  next
    case True
    then have d: "drop i pl = pl ! i # drop (Suc i) pl"
      by (simp add: Cons_nth_drop_Suc)
    with "1.prems"(2) have no: "\<not> (getFullLength cp \<le> getFullLength (pl ! i) \<and> containsPath (pl ! i) cp)"
      and rest: "find (\<lambda>path. getFullLength cp \<le> getFullLength path \<and> containsPath path cp)
                  (drop (i + 1) pl) = None"
      by (auto split: if_splits)
    from "1.IH" [OF True no _ rest] True
    have "fst (find_path_loop pl cp (i + 1) (getFullLength (pl ! i))) = length pl"
      by simp
    moreover from True no have "find_path_loop pl cp i len =
        find_path_loop pl cp (i + 1) (getFullLength (pl ! i))"
      by (subst find_path_loop.simps) auto
    ultimately show ?thesis by simp
  qed
qed

lemma find_path_loop_some:
  "find (\<lambda>path. getFullLength cp \<le> getFullLength path \<and> containsPath path cp) (drop i pl) = Some p
   \<Longrightarrow> fst (find_path_loop pl cp i len) < length pl \<and>
       snd (find_path_loop pl cp i len) = getFullLength p"
proof (induction pl cp i len rule: find_path_loop.induct)
  case (1 pl cp i len)
  show ?case
  proof (cases "i < length pl")
    case False
    with "1.prems" show ?thesis by simp
  next
    case True
    then have d: "drop i pl = pl ! i # drop (Suc i) pl"
      by (simp add: Cons_nth_drop_Suc)
    show ?thesis
    proof (cases "getFullLength cp \<le> getFullLength (pl ! i) \<and> containsPath (pl ! i) cp")
      case hit: True
      with "1.prems" d have "p = pl ! i" by simp
      moreover from True hit have "find_path_loop pl cp i len = (i, getFullLength (pl ! i))"
        by (subst find_path_loop.simps) auto
      ultimately show ?thesis using True by simp
    next
      case miss: False
      with "1.prems" d
      have "find (\<lambda>path. getFullLength cp \<le> getFullLength path \<and> containsPath path cp)
              (drop (i + 1) pl) = Some p"
        by auto
      moreover from True miss have "find_path_loop pl cp i len =
          find_path_loop pl cp (i + 1) (getFullLength (pl ! i))"
        by (subst find_path_loop.simps) auto
      ultimately show ?thesis using "1.IH" [OF True miss] by simp
    qed
  qed
qed

text \<open>
  Claim C2: for an action applied to a path list, whenever the current path code is
  \<open>IN_PATH\<close> and \<open>pushCurPath\<close> descends into a child, the applied path list is searched
  for a path that contains the new current path, among the paths whose full length is
  at least \<open>curlen\<close>: if there is none the code becomes \<open>OFF_PATH\<close>, if the full length of
  the path found (the first one in the list) equals \<open>curlen\<close> it becomes \<open>BELOW_PATH\<close>,
  otherwise it stays \<open>IN_PATH\<close>.
\<close>

theorem path_code_on_applied_pathlist:
  assumes "currentpathcode a = IN_PATH" and "appliedcode a = PATH_LIST"
    and "shared (applieddata a) = PathListPtr pl"
  shows "pushCurPath K idx (Some c) a =
     (let cp = append_node (currentpath a) (Some c) idx; curlen = getFullLength cp in
      Inr (a\<lparr>currentpath := cp,
             currentpathcode :=
               (case find (\<lambda>path. curlen \<le> getFullLength path \<and> containsPath path cp) pl of
                  None \<Rightarrow> OFF_PATH
                | Some path \<Rightarrow> if getFullLength path = curlen then BELOW_PATH else IN_PATH)\<rparr>))"
proof -
  let ?cp = "append_node (currentpath a) (Some c) idx"
  let ?Q = "\<lambda>path. getFullLength ?cp \<le> getFullLength path \<and> containsPath path ?cp"
  obtain i len where loop: "find_path_loop pl ?cp 0 (-1) = (i, len)"
    by (cases "find_path_loop pl ?cp 0 (-1)")
  have push: "pushCurPath K idx (Some c) a =
      (if i = length pl then Inr (a\<lparr>currentpath := ?cp, currentpathcode := OFF_PATH\<rparr>)
       else if len = getFullLength ?cp then Inr (a\<lparr>currentpath := ?cp, currentpathcode := BELOW_PATH\<rparr>)
       else Inr (a\<lparr>currentpath := ?cp\<rparr>))"
    using assms loop
    by (simp add: pushCurPath_def Let_def getWhatAppliedTo_def deref_pathlist_def)
  show ?thesis
  proof (cases "find ?Q pl")
    case None
    with find_path_loop_none [of 0 pl ?cp "-1"] loop have "i = length pl" by simp
    with push None show ?thesis by (simp add: Let_def)
  next
    case (Some path)
    with find_path_loop_some [of ?cp 0 pl path "-1"] loop
    have "i < length pl" and "len = getFullLength path" by simp_all
    with push Some assms(1) show ?thesis by (auto simp: Let_def)
  qed
qed

text \<open>An action in the traversal of the list of the two paths to \<open>A1\<close> and to \<open>B\<close>, at \<open>G0\<close>.\<close>

definition pathlist_action :: SoAction where
  "pathlist_action =
     \<lparr>state = Some NewSoState, appliedcode = PATH_LIST,
      applieddata = \<lparr>shared = PathListPtr [path_G0_A_A1, path_G0_B],
                     origpathlist = PathListPtr [path_G0_A_A1, path_G0_B]\<rparr>,
      currentpath = [(Some 0, -1)], terminated = False, currentpathcode = IN_PATH,
      pathcodearray = []\<rparr>"

theorem path_code_on_applied_pathlist_witness:
  "currentpathcode pathlist_action = IN_PATH \<and> appliedcode pathlist_action = PATH_LIST \<and>
   shared (applieddata pathlist_action) = PathListPtr [path_G0_A_A1, path_G0_B] \<and>
   pushCurPath search_kernel 1 (Some 2) pathlist_action =
     Inr (pathlist_action\<lparr>currentpath := [(Some 0, -1), (Some 2, 1)],
                          currentpathcode := BELOW_PATH\<rparr>)"
proof -
  have h1: "currentpathcode pathlist_action = IN_PATH"
    and h2: "appliedcode pathlist_action = PATH_LIST"
    and h3: "shared (applieddata pathlist_action) = PathListPtr [path_G0_A_A1, path_G0_B]"
    by (simp_all add: pathlist_action_def)
  show ?thesis
    using path_code_on_applied_pathlist [OF h1 h2 h3, of search_kernel 1 2] h1 h2 h3
    by (simp add: Let_def pathlist_action_def append_node_def getFullLength_def
        containsPath_def scene_defs)
qed

lemma pushCurPath_pathlist_examples:
  "pushCurPath search_kernel 0 (Some 1) pathlist_action =
     Inr (pathlist_action\<lparr>currentpath := [(Some 0, -1), (Some 1, 0)]\<rparr>) \<and>
   pushCurPath search_kernel 2 (Some 3) pathlist_action =
     Inr (pathlist_action\<lparr>currentpath := [(Some 0, -1), (Some 3, 2)],
                          currentpathcode := OFF_PATH\<rparr>)"
  by (simp add: kernel_defs pathlist_action_def scene_defs find_path_loop.simps)

section \<open>The indices of getPathCode\<close>

text \<open>
  What the loop of \<^verbatim>\<open>usePathCode\<close> keeps of a sequence of indices: an index is dropped
  when it equals the index kept last, \<open>prev\<close> at the start.
\<close>

fun skip_repeats :: "int \<Rightarrow> int list \<Rightarrow> int list" where
  "skip_repeats prev [] = []"
| "skip_repeats prev (x # xs) =
     (if x \<noteq> prev then x # skip_repeats x xs else skip_repeats prev xs)"

text \<open>
  The indices at the depth of the current path of the paths of the list that are longer
  than the current path and contain it, in the order of the list.
\<close>

definition next_indices :: "SoPathList \<Rightarrow> SoPath \<Rightarrow> int list" where
  "next_indices pl cp =
     map (\<lambda>path. snd (path ! length cp))
       (filter (\<lambda>path. getFullLength path > getFullLength cp \<and> containsPath path cp) pl)"

text \<open>The scratch lists of the action after \<^verbatim>\<open>usePathCode\<close> has written the indices.\<close>

definition scratch_written :: "SoAction \<Rightarrow> int list \<Rightarrow> int list list" where
  "scratch_written a ixs =
     (grow_pathcodearray (pathcodearray a) (getFullLength (currentpath a)))
       [nat (getFullLength (currentpath a) - 1) := ixs]"

lemma collect_indices_skip_repeats:
  "collect_indices pl cp (getFullLength cp) previdx myarray =
     Inr (myarray @ skip_repeats previdx (next_indices pl cp))"
proof (induction pl arbitrary: previdx myarray)
  case Nil
  then show ?case by (simp add: next_indices_def)
next
  case (Cons path rest)
  show ?case
  proof (cases "getFullLength path > getFullLength cp \<and> containsPath path cp")
    case False
    then have "next_indices (path # rest) cp = next_indices rest cp"
      by (auto simp: next_indices_def)
    with False Cons.IH show ?thesis by auto
  next
    case True
    then have n: "next_indices (path # rest) cp = snd (path ! length cp) # next_indices rest cp"
      by (simp add: next_indices_def)
    from True have g: "getIndex path (getFullLength cp) = Inr (snd (path ! length cp))"
      by (simp add: getIndex_def getFullLength_def)
    show ?thesis
      using True Cons.IH by (simp add: n g)
  qed
qed

lemma skip_repeats_sorted:
  "sorted xs \<Longrightarrow> \<forall>x \<in> set xs. prev \<le> x \<Longrightarrow>
   distinct (skip_repeats prev xs) \<and> sorted (skip_repeats prev xs) \<and>
   set (skip_repeats prev xs) = set xs - {prev}"
proof (induction xs arbitrary: prev)
  case Nil
  then show ?case by simp
next
  case (Cons x xs)
  from Cons.prems have sx: "sorted xs" and above: "\<forall>y \<in> set xs. x \<le> y" and px: "prev \<le> x"
    by auto
  show ?case
  proof (cases "x = prev")
    case True
    with Cons.IH [OF sx, of prev] above show ?thesis by auto
  next
    case False
    with px have "prev < x" by simp
    with above have "prev \<notin> set xs" by auto
    with Cons.IH [OF sx above] False above show ?thesis by auto
  qed
qed

lemma skip_repeats_remdups:
  assumes "sorted xs" and "\<forall>x \<in> set xs. 0 \<le> x"
  shows "skip_repeats (-1) xs = remdups xs"
proof -
  from assms(2) have below: "\<forall>x \<in> set xs. -1 \<le> x" and notin: "-1 \<notin> set xs"
    by auto
  from skip_repeats_sorted [OF assms(1) below] notin
  have "distinct (skip_repeats (-1) xs)" "sorted (skip_repeats (-1) xs)"
    "set (skip_repeats (-1) xs) = set (remdups xs)"
    by auto
  moreover from assms(1) have "sorted (remdups xs)" "distinct (remdups xs)"
    by (simp_all add: sorted_remdups)
  ultimately show ?thesis
    by (metis sorted_distinct_set_unique)
qed

lemma usePathCode_path:
  assumes "appliedcode a = PATH" and "shared (applieddata a) = PathPtr P"
    and "currentpath a \<noteq> []" and "getIndex P (getFullLength (currentpath a)) = Inr i"
  shows "usePathCode a = Inr (1, [i], a\<lparr>pathcodearray := scratch_written a [i]\<rparr>)"
  using assms
  by (simp add: usePathCode_def Let_def getWhatAppliedTo_def deref_path_def scratch_written_def
      getFullLength_def)

lemma usePathCode_pathlist:
  assumes "appliedcode a = PATH_LIST" and "shared (applieddata a) = PathListPtr pl"
    and "currentpath a \<noteq> []"
  shows "usePathCode a =
     Inr (int (length (skip_repeats (-1) (next_indices pl (currentpath a)))),
          skip_repeats (-1) (next_indices pl (currentpath a)),
          a\<lparr>pathcodearray :=
               scratch_written a (skip_repeats (-1) (next_indices pl (currentpath a)))\<rparr>)"
  using assms
  by (simp add: usePathCode_def Let_def getWhatAppliedTo_def deref_pathlist_def
      scratch_written_def collect_indices_skip_repeats)
    (simp add: getFullLength_def)

text \<open>
  Claim C8, as amended: \<open>getPathCode\<close> returns the current path code and writes its output
  arguments only when that code is \<open>IN_PATH\<close>. In that case, for an action applied to a
  path it yields exactly one index, the applied path's \<open>getIndex curlen\<close> with \<open>curlen\<close>
  the full length of the current path; for an action applied to a path list it yields,
  in the order of the list, the indices \<open>getIndex curlen\<close> of the paths of the applied list
  whose full length exceeds \<open>curlen\<close> and that contain the current path, where an index is
  left out when it equals the index written last (\<open>-1\<close> before the first one). When these
  indices are sorted and not negative, as for a list sorted in traversal order, this is
  the deduplicated sequence. The indices are also stored in the scratch list of the
  current depth.
\<close>

theorem getPathCode_indices:
  "(currentpathcode a \<noteq> IN_PATH \<longrightarrow> getPathCode out a = Inr (currentpathcode a, out, a)) \<and>
   (currentpathcode a = IN_PATH \<and> appliedcode a = PATH \<and>
    shared (applieddata a) = PathPtr P \<and> currentpath a \<noteq> [] \<and>
    getIndex P (getFullLength (currentpath a)) = Inr i \<longrightarrow>
      getPathCode out a = Inr (IN_PATH, (1, [i]), a\<lparr>pathcodearray := scratch_written a [i]\<rparr>)) \<and>
   (currentpathcode a = IN_PATH \<and> appliedcode a = PATH_LIST \<and>
    shared (applieddata a) = PathListPtr pl \<and> currentpath a \<noteq> [] \<longrightarrow>
      getPathCode out a =
        Inr (IN_PATH,
             (int (length (skip_repeats (-1) (next_indices pl (currentpath a)))),
              skip_repeats (-1) (next_indices pl (currentpath a))),
             a\<lparr>pathcodearray :=
                  scratch_written a (skip_repeats (-1) (next_indices pl (currentpath a)))\<rparr>)) \<and>
   (sorted (next_indices pl (currentpath a)) \<and>
    (\<forall>x \<in> set (next_indices pl (currentpath a)). 0 \<le> x) \<longrightarrow>
      skip_repeats (-1) (next_indices pl (currentpath a)) =
        remdups (next_indices pl (currentpath a)))"
  using usePathCode_path [of a P i] usePathCode_pathlist [of a pl]
    skip_repeats_remdups [of "next_indices pl (currentpath a)"]
  by (auto simp: getPathCode_def)

lemma next_indices_example:
  "next_indices [path_G0_A_A1, path_G0_B] [(Some 0, -1)] = [0, 1]"
  by (simp add: next_indices_def getFullLength_def containsPath_def scene_defs)

theorem getPathCode_indices_witness:
  "currentpathcode outer_action = IN_PATH \<and> appliedcode outer_action = PATH \<and>
   shared (applieddata outer_action) = PathPtr path_G0_B \<and> currentpath outer_action \<noteq> [] \<and>
   getIndex path_G0_B (getFullLength (currentpath outer_action)) = Inr 1 \<and>
   currentpathcode aborted_action \<noteq> IN_PATH \<and>
   getPathCode (0, []) aborted_action = Inr (NO_PATH, (0, []), aborted_action) \<and>
   getPathCode (0, []) outer_action =
     Inr (IN_PATH, (1, [1]), outer_action\<lparr>pathcodearray := [[1]]\<rparr>) \<and>
   currentpathcode pathlist_action = IN_PATH \<and> appliedcode pathlist_action = PATH_LIST \<and>
   shared (applieddata pathlist_action) = PathListPtr [path_G0_A_A1, path_G0_B] \<and>
   currentpath pathlist_action \<noteq> [] \<and>
   getPathCode (0, []) pathlist_action =
     Inr (IN_PATH, (2, [0, 1]), pathlist_action\<lparr>pathcodearray := [[0, 1]]\<rparr>) \<and>
   next_indices [path_G0_A_A1, path_G0_B] (currentpath pathlist_action) = [0, 1] \<and>
   skip_repeats (-1) (next_indices [path_G0_A_A1, path_G0_B] (currentpath pathlist_action)) =
     remdups (next_indices [path_G0_A_A1, path_G0_B] (currentpath pathlist_action))"
proof -
  have g: "grow_pathcodearray [] 1 = [[]]"
    by (simp add: grow_pathcodearray.simps)
  have cp: "currentpath pathlist_action = [(Some 0, -1)]" "currentpath outer_action = [(Some 0, -1)]"
    by (simp_all add: pathlist_action_def outer_action_def)
  have h1: "currentpathcode outer_action = IN_PATH \<and> appliedcode outer_action = PATH \<and>
      shared (applieddata outer_action) = PathPtr path_G0_B \<and> currentpath outer_action \<noteq> [] \<and>
      getIndex path_G0_B (getFullLength (currentpath outer_action)) = Inr 1"
    by (simp add: outer_action_def getIndex_def getFullLength_def path_G0_B_def)
  have h2: "currentpathcode pathlist_action = IN_PATH \<and> appliedcode pathlist_action = PATH_LIST \<and>
      shared (applieddata pathlist_action) = PathListPtr [path_G0_A_A1, path_G0_B] \<and>
      currentpath pathlist_action \<noteq> []"
    by (simp add: pathlist_action_def)
  have h3: "sorted (next_indices [path_G0_A_A1, path_G0_B] (currentpath pathlist_action)) \<and>
      (\<forall>x \<in> set (next_indices [path_G0_A_A1, path_G0_B] (currentpath pathlist_action)). 0 \<le> x)"
    by (simp add: cp next_indices_example)
  have h4: "currentpathcode aborted_action \<noteq> IN_PATH"
    by (simp add: scene_defs)
  have s1: "scratch_written outer_action [1] = [[1]]"
    "scratch_written pathlist_action [0, 1] = [[0, 1]]"
    by (simp_all add: scratch_written_def cp getFullLength_def pathlist_action_def
        outer_action_def g)
  have c0: "currentpathcode aborted_action = NO_PATH"
    by (simp add: scene_defs)
  have sk: "skip_repeats (-1) (next_indices [path_G0_A_A1, path_G0_B] (currentpath pathlist_action))
      = [0, 1]"
    by (simp add: cp next_indices_example)
  from getPathCode_indices [of aborted_action "(0, [])" path_G0_B 1 "[]"] h4
  have r0: "getPathCode (0, []) aborted_action =
      Inr (currentpathcode aborted_action, (0, []), aborted_action)"
    by blast
  from getPathCode_indices [of outer_action "(0, [])" path_G0_B 1 "[]"] h1
  have r1: "getPathCode (0, []) outer_action =
      Inr (IN_PATH, (1, [1]), outer_action\<lparr>pathcodearray := scratch_written outer_action [1]\<rparr>)"
    by blast
  note T = getPathCode_indices [of pathlist_action "(0, [])" path_G0_B 1 "[path_G0_A_A1, path_G0_B]"]
  from T h2
  have r2: "getPathCode (0, []) pathlist_action =
      Inr (IN_PATH,
           (int (length (skip_repeats (-1)
              (next_indices [path_G0_A_A1, path_G0_B] (currentpath pathlist_action)))),
            skip_repeats (-1) (next_indices [path_G0_A_A1, path_G0_B] (currentpath pathlist_action))),
           pathlist_action\<lparr>pathcodearray :=
             scratch_written pathlist_action (skip_repeats (-1)
               (next_indices [path_G0_A_A1, path_G0_B] (currentpath pathlist_action)))\<rparr>)"
    by blast
  from T h3
  have r3: "skip_repeats (-1) (next_indices [path_G0_A_A1, path_G0_B] (currentpath pathlist_action)) =
      remdups (next_indices [path_G0_A_A1, path_G0_B] (currentpath pathlist_action))"
    by blast
  have ni: "next_indices [path_G0_A_A1, path_G0_B] (currentpath pathlist_action) = [0, 1]"
    by (simp add: cp next_indices_example)
  show ?thesis
    using h1 h2 h4 r0 r1 r2 r3 ni by (simp add: sk s1 c0)
qed

text \<open>A path list that is not sorted in traversal order: the path to \<open>A0\<close> comes last.\<close>

definition unsorted_action :: SoAction where
  "unsorted_action =
     \<lparr>state = Some NewSoState, appliedcode = PATH_LIST,
      applieddata =
        \<lparr>shared = PathListPtr [path_G0_A_A1, path_G0_B, [(Some 0, -1), (Some 1, 0), (Some 4, 0)]],
         origpathlist =
           PathListPtr [path_G0_A_A1, path_G0_B, [(Some 0, -1), (Some 1, 0), (Some 4, 0)]]\<rparr>,
      currentpath = [(Some 0, -1)], terminated = False, currentpathcode = IN_PATH,
      pathcodearray = []\<rparr>"

text \<open>
  Claim C8, as stated, fails: for a path list in which the paths through one child are
  not adjacent, the sequence \<open>getPathCode\<close> yields names that child twice.
\<close>

theorem getPathCode_repeats_index:
  "getPathCode (0, []) unsorted_action =
     Inr (IN_PATH, (3, [0, 1, 0]), unsorted_action\<lparr>pathcodearray := [[0, 1, 0]]\<rparr>) \<and>
   \<not> distinct [0, 1, 0 :: int]"
  by (simp add: getPathCode_def usePathCode_def Let_def getWhatAppliedTo_def deref_pathlist_def
      grow_pathcodearray.simps getFullLength_def getIndex_def containsPath_def
      unsorted_action_def scene_defs)

section \<open>Path lists that need not obey the rules\<close>

subsection \<open>The sorted and uniquified copy\<close>

lemma uniquify_subset: "set (uniquify xs) \<subseteq> set xs"
  by (induction xs rule: uniquify.induct) auto

lemma uniquify_sorted_wrt: "sorted_wrt R xs \<Longrightarrow> sorted_wrt R (uniquify xs)"
proof (induction xs rule: uniquify.induct)
  case (3 p q ps)
  show ?case
  proof (cases "containsPath p q")
    case True
    with "3.prems" "3.IH"(1) show ?thesis by simp
  next
    case False
    from "3.prems" have "\<forall>x \<in> set (q # ps). R p x" and "sorted_wrt R (q # ps)"
      by auto
    with False "3.IH"(2) uniquify_subset [of "q # ps"] show ?thesis
      by auto
  qed
qed simp_all

lemma uniquify_Nil_iff: "uniquify xs = [] \<longleftrightarrow> xs = []"
  by (induction xs rule: uniquify.induct) auto

lemma hd_uniquify: "hd (uniquify xs) = hd xs"
  by (induction xs rule: uniquify.induct) auto

lemma sort_pl_Nil_iff: "sort_pl pl = [] \<longleftrightarrow> pl = []"
  by (metis length_0_conv length_sort sort_pl_def)

lemma sort_pl_sorted: "sorted (map path_key (sort_pl pl))"
  by (simp add: sort_pl_def)

lemma sort_pl_set: "set (sort_pl pl) = set pl"
  by (simp add: sort_pl_def)

lemma normalised_heads_sorted:
  "sorted (map (\<lambda>p. head_id (getHead p)) (uniquify (sort_pl pl)))"
proof -
  have "sorted_wrt (\<lambda>p q. path_key p \<le> path_key q) (sort_pl pl)"
    using sort_pl_sorted [of pl] by (simp add: sorted_map)
  then have "sorted_wrt (\<lambda>p q. head_id (getHead p) \<le> head_id (getHead q)) (sort_pl pl)"
    by (rule sorted_wrt_mono_rel [rotated]) (auto simp: path_key_def)
  then show ?thesis
    by (simp add: sorted_map uniquify_sorted_wrt)
qed

lemma head_id_inj: "head_id h = head_id h' \<Longrightarrow> h = h'"
  by (auto simp: head_id_def split: option.splits)

lemma sorted_heads_first_last:
  assumes "sorted (map (\<lambda>p. head_id (getHead p)) sl)" and "sl \<noteq> []"
  shows "getHead (sl ! 0) = getHead (sl ! (length sl - 1)) \<longleftrightarrow>
     (\<forall>p \<in> set sl. getHead p = getHead (hd sl))"
proof
  assume "\<forall>p \<in> set sl. getHead p = getHead (hd sl)"
  moreover from assms(2) have "sl ! 0 \<in> set sl" "sl ! (length sl - 1) \<in> set sl"
    by simp_all
  ultimately show "getHead (sl ! 0) = getHead (sl ! (length sl - 1))"
    by simp
next
  assume eq: "getHead (sl ! 0) = getHead (sl ! (length sl - 1))"
  show "\<forall>p \<in> set sl. getHead p = getHead (hd sl)"
  proof
    fix p assume "p \<in> set sl"
    then obtain i where i: "i < length sl" and p: "p = sl ! i"
      by (auto simp: in_set_conv_nth)
    let ?f = "\<lambda>p. head_id (getHead p)"
    from i have pos: "0 < length sl" and last: "length sl - 1 < length sl" and le: "i \<le> length sl - 1"
      by linarith+
    from assms(1) i have "map ?f sl ! 0 \<le> map ?f sl ! i"
      by (intro sorted_nth_mono) simp_all
    with i pos have first: "?f (sl ! 0) \<le> ?f (sl ! i)"
      by (simp only: nth_map)
    from assms(1) last le have "map ?f sl ! i \<le> map ?f sl ! (length sl - 1)"
      by (intro sorted_nth_mono) simp_all
    with i last have "?f (sl ! i) \<le> ?f (sl ! (length sl - 1))"
      by (simp only: nth_map)
    with first have "?f (sl ! i) = ?f (sl ! 0)"
      using eq by simp
    then have "getHead (sl ! i) = getHead (sl ! 0)"
      by (rule head_id_inj)
    with p assms(2) show "getHead p = getHead (hd sl)"
      by (simp add: hd_conv_nth)
  qed
qed

subsection \<open>The groups of the pass per head node\<close>

text \<open>
  The groups of a list of paths: each group is a run of adjacent paths with the head of
  its first path, as long as possible.
\<close>

function head_groups :: "SoPathList \<Rightarrow> SoPathList list" where
  "head_groups [] = []"
| "head_groups (p # ps) =
     (p # takeWhile (\<lambda>q. getHead q = getHead p) ps)
       # head_groups (dropWhile (\<lambda>q. getHead q = getHead p) ps)"
  by pat_completeness auto
termination
  by (relation "measure length") (auto simp: length_dropWhile_le less_Suc_eq_le)

text \<open>
  One traversal per group, in the order of the groups: \<open>beginTraversal\<close> at the head of the
  group, the applied list being the group; no group is started once the termination flag
  is set.
\<close>

fun traverse_groups :: "kernel \<Rightarrow> SoPathList list \<Rightarrow> SoAction \<Rightarrow> error + SoAction" where
  "traverse_groups K [] a = Inr a"
| "traverse_groups K (g # gs) a =
     (if hasTerminated a then Inr a
      else
        (case beginTraversal K (getHead (hd g)) (group_setup g a) of
           Inl e \<Rightarrow> Inl e
         | Inr a' \<Rightarrow> traverse_groups K gs a'))"

lemma collect_group_takeWhile:
  "collect_group sl h i t =
     (i + length (takeWhile (\<lambda>q. getHead q = h) (drop i sl)),
      t @ takeWhile (\<lambda>q. getHead q = h) (drop i sl))"
proof (induction sl h i t rule: collect_group.induct)
  case (1 sl h i t)
  show ?case
  proof (cases "i < length sl")
    case False
    then show ?thesis by (subst collect_group.simps) simp
  next
    case True
    then have d: "drop i sl = sl ! i # drop (Suc i) sl"
      by (simp add: Cons_nth_drop_Suc)
    show ?thesis
    proof (cases "getHead (sl ! i) = h")
      case False
      with True d show ?thesis by (subst collect_group.simps) simp
    next
      case same: True
      with True "1.IH" have "collect_group sl h (i + 1) (t @ [sl ! i]) =
          (i + 1 + length (takeWhile (\<lambda>q. getHead q = h) (drop (i + 1) sl)),
           (t @ [sl ! i]) @ takeWhile (\<lambda>q. getHead q = h) (drop (i + 1) sl))"
        by simp
      with True same d show ?thesis by (subst collect_group.simps) simp
    qed
  qed
qed

lemma head_loop_groups:
  "i \<le> length sl \<Longrightarrow> head_loop K sl i a = traverse_groups K (head_groups (drop i sl)) a"
proof (induction K sl i a rule: head_loop.induct)
  case (1 K sl i a)
  show ?case
  proof (cases "i < length sl")
    case False
    with "1.prems" show ?thesis by (subst head_loop.simps) simp
  next
    case True
    let ?P = "\<lambda>q. getHead q = getHead (sl ! i)"
    from True have d: "drop i sl = sl ! i # drop (Suc i) sl"
      by (simp add: Cons_nth_drop_Suc)
    have t: "group_templist sl i = sl ! i # takeWhile ?P (drop (Suc i) sl)"
      by (simp add: group_templist_def collect_group_takeWhile)
    have n: "group_next sl i = Suc i + length (takeWhile ?P (drop (Suc i) sl))"
      by (simp add: group_next_def collect_group_takeWhile)
    have nle: "group_next sl i \<le> length sl"
      using length_takeWhile_le [of ?P "drop (Suc i) sl"] True by (simp add: n)
    have dn: "drop (group_next sl i) sl = dropWhile ?P (drop (Suc i) sl)"
      by (simp add: n dropWhile_eq_drop add.commute)
    have g: "head_groups (drop i sl) =
        group_templist sl i # head_groups (drop (group_next sl i) sl)"
      by (simp add: d t dn)
    show ?thesis
    proof (cases "hasTerminated a")
      case True
      then show ?thesis by (subst head_loop.simps) (simp add: g)
    next
      case False
      have "head_loop K sl i a =
          (case beginTraversal K (getHead (group_templist sl i ! 0))
                  (group_setup (group_templist sl i) a) of
             Inl e \<Rightarrow> Inl e
           | Inr a' \<Rightarrow> head_loop K sl (group_next sl i) a')"
        using True False by (subst head_loop.simps) simp
      also have "\<dots> =
          (case beginTraversal K (getHead (group_templist sl i ! 0))
                  (group_setup (group_templist sl i) a) of
             Inl e \<Rightarrow> Inl e
           | Inr a' \<Rightarrow> traverse_groups K (head_groups (drop (group_next sl i) sl)) a')"
        using "1.IH" [OF _ _ nle] True False by (auto split: sum.splits)
      finally show ?thesis
        using False by (simp add: g) (simp add: t)
    qed
  qed
qed

lemma concat_head_groups: "concat (head_groups sl) = sl"
  by (induction sl rule: head_groups.induct) simp_all

lemma head_groups_share_head:
  "g \<in> set (head_groups sl) \<Longrightarrow> g \<noteq> [] \<and> (\<forall>p \<in> set g. getHead p = getHead (hd g))"
proof (induction sl rule: head_groups.induct)
  case 1
  then show ?case by simp
next
  case (2 p ps)
  let ?P = "\<lambda>q. getHead q = getHead p"
  from "2.prems" have "g = p # takeWhile ?P ps \<or> g \<in> set (head_groups (dropWhile ?P ps))"
    by (simp only: head_groups.simps set_simps insert_iff)
  then consider "g = p # takeWhile ?P ps" | "g \<in> set (head_groups (dropWhile ?P ps))"
    by blast
  then show ?case
  proof cases
    case 1
    then have ne: "g \<noteq> []" and hd: "hd g = p"
      by simp_all
    have "getHead q = getHead p" if "q \<in> set g" for q
    proof -
      from that 1 have "q = p \<or> q \<in> set (takeWhile ?P ps)"
        by (simp only: set_simps insert_iff)
      then show ?thesis
        using set_takeWhileD [of q ?P ps] by blast
    qed
    with ne hd show ?thesis
      by (simp only: simp_thms) blast
  next
    case 2
    then show ?thesis by (rule "2.IH")
  qed
qed

lemma traverse_groups_terminated: "hasTerminated a \<Longrightarrow> traverse_groups K gs a = Inr a"
  by (cases gs) simp_all

lemma dropWhile_heads_greater:
  assumes "sorted (map (\<lambda>p. head_id (getHead p)) (p # ps))"
    and "q \<in> set (dropWhile (\<lambda>q. getHead q = getHead p) ps)"
  shows "head_id (getHead p) < head_id (getHead q)"
proof -
  let ?f = "\<lambda>p. head_id (getHead p)"
  let ?d = "dropWhile (\<lambda>q. getHead q = getHead p) ps"
  from assms(2) have ne: "?d \<noteq> []"
    by (metis empty_iff list.set(1))
  then have "getHead (hd ?d) \<noteq> getHead p"
    using hd_dropWhile [of "\<lambda>q. getHead q = getHead p" ps] by simp
  then have neq: "?f (hd ?d) \<noteq> ?f p"
    using head_id_inj by blast
  have sub: "set ?d \<subseteq> set ps"
    by (auto dest: set_dropWhileD)
  from assms(1) have "\<forall>x \<in> set ps. ?f p \<le> ?f x" and sps: "sorted (map ?f ps)"
    by auto
  with sub ne have "?f p \<le> ?f (hd ?d)"
    by (meson hd_in_set subsetD)
  with neq have lt: "?f p < ?f (hd ?d)" by simp
  from sps have "sorted_wrt (\<lambda>x y. ?f x \<le> ?f y) ps"
    by (simp add: sorted_map)
  then have "sorted_wrt (\<lambda>x y. ?f x \<le> ?f y) ?d"
    by (simp add: dropWhile_eq_drop)
  with ne assms(2) have "?f (hd ?d) \<le> ?f q"
    by (cases ?d) auto
  with lt show ?thesis by simp
qed

lemma head_groups_heads_increasing:
  "sorted (map (\<lambda>p. head_id (getHead p)) sl) \<Longrightarrow>
   sorted_wrt (<) (map (\<lambda>g. head_id (getHead (hd g))) (head_groups sl))"
proof (induction sl rule: head_groups.induct)
  case 1
  then show ?case by simp
next
  case (2 p ps)
  let ?f = "\<lambda>p. head_id (getHead p)"
  let ?d = "dropWhile (\<lambda>q. getHead q = getHead p) ps"
  from "2.prems" have "sorted_wrt (\<lambda>x y. ?f x \<le> ?f y) ps"
    by (simp add: sorted_map)
  then have "sorted_wrt (\<lambda>x y. ?f x \<le> ?f y) ?d"
    by (simp add: dropWhile_eq_drop)
  then have "sorted (map ?f ?d)"
    by (simp add: sorted_map)
  with "2.IH" have rest: "sorted_wrt (<) (map (\<lambda>g. ?f (hd g)) (head_groups ?d))"
    by simp
  have "\<forall>g \<in> set (head_groups ?d). ?f p < ?f (hd g)"
  proof
    fix g assume g: "g \<in> set (head_groups ?d)"
    with head_groups_share_head have "g \<noteq> []" by blast
    moreover from g have "set g \<subseteq> set ?d"
      using concat_head_groups [of ?d] by (metis Sup_upper image_eqI set_concat)
    ultimately have "hd g \<in> set ?d" by auto
    with dropWhile_heads_greater [OF "2.prems"] show "?f p < ?f (hd g)" .
  qed
  with rest show ?case by simp
qed

subsection \<open>\<^verbatim>\<open>apply\<close> to a path list\<close>

text \<open>
  The action after the first assignments of \<^verbatim>\<open>apply(const SoPathList &, SbBool)\<close>, before
  the test of \<^verbatim>\<open>obeysrules\<close>.
\<close>

definition pathlist_traversal_start :: "SoPathList \<Rightarrow> SoAction \<Rightarrow> SoAction" where
  "pathlist_traversal_start pathlist a =
     (getState (a\<lparr>terminated := False\<rparr>))
       \<lparr>applieddata := (applieddata a)\<lparr>origpathlist := PathListPtr pathlist,
                                       shared := PathListPtr pathlist\<rparr>,
        appliedcode := PATH_LIST,
        currentpathcode := (if getFullLength (pathlist ! 0) > 1 then IN_PATH else BELOW_PATH)\<rparr>"

lemma getState_applieddata: "applieddata (getState a) = applieddata a"
  by (simp add: getState_def split: option.splits)

lemma getState_currentpath: "currentpath (getState a) = currentpath a"
  by (simp add: getState_def split: option.splits)

lemma apply_pathlist_start:
  assumes "traversalMethods K \<noteq> None" and "pathlist \<noteq> []"
  shows "apply_pathlist K pathlist obeysrules a =
     (case (if obeysrules then
              (case beginTraversal K (getHead (pathlist ! 0))
                      ((pathlist_traversal_start pathlist a)
                         \<lparr>currentpath := [(getHead (pathlist ! 0), -1)]\<rparr>) of
                 Inl e \<Rightarrow> Inl e
               | Inr a8 \<Rightarrow> endTraversal K (getHead (pathlist ! 0)) a8)
            else if uniquify (sort_pl pathlist) = [] then Inl OutOfRange
            else if getHead (uniquify (sort_pl pathlist) ! 0) =
                    getHead (uniquify (sort_pl pathlist) ! (length (uniquify (sort_pl pathlist)) - 1))
            then
              (case beginTraversal K (getHead (uniquify (sort_pl pathlist) ! 0))
                      ((pathlist_traversal_start pathlist a)
                         \<lparr>currentpath := [(getHead (uniquify (sort_pl pathlist) ! 0), -1)],
                          applieddata :=
                            (applieddata a)\<lparr>origpathlist := PathListPtr pathlist,
                                             shared := PathListPtr (uniquify (sort_pl pathlist))\<rparr>\<rparr>) of
                 Inl e \<Rightarrow> Inl e
               | Inr a9 \<Rightarrow> endTraversal K (getHead (uniquify (sort_pl pathlist) ! 0)) a9)
            else head_loop K (uniquify (sort_pl pathlist)) 0 (pathlist_traversal_start pathlist a)) of
        Inl e \<Rightarrow> Inl e
      | Inr b \<Rightarrow>
         Inr (b\<lparr>appliedcode := appliedcode a, currentpathcode := currentpathcode a,
                applieddata := applieddata a\<rparr>))"
proof -
  from assms(1) obtain m where m: "traversalMethods K = Some m" by auto
  show ?thesis
    using assms(2)
    by (simp add: apply_pathlist_def Let_def m pathlist_traversal_start_def setHead_def
        getState_applieddata)
qed

text \<open>
  Claim C7: when apply to a path list is called with \<open>obeysrules\<close> false, the traversal
  runs over a sorted and uniquified copy of the list. If all paths of that normalised
  list share one head, one traversal (\<open>beginTraversal\<close>, then \<open>endTraversal\<close>) runs over
  that head with the normalised list as the applied list; otherwise one traversal runs
  per head, in the sorted order of the heads, over the group of the paths that share that
  head, and no further group is started once the termination flag is set.
\<close>

theorem apply_pathlist_not_obeying_rules:
  assumes "traversalMethods K \<noteq> None" and "pathlist \<noteq> []"
  shows
    "(let sl = uniquify (sort_pl pathlist); start = pathlist_traversal_start pathlist a in
      ((\<forall>p \<in> set sl. getHead p = getHead (hd sl)) \<longrightarrow>
         apply_pathlist K pathlist False a =
           (case beginTraversal K (getHead (hd sl))
                   (start\<lparr>currentpath := [(getHead (hd sl), -1)],
                          applieddata := (applieddata a)\<lparr>origpathlist := PathListPtr pathlist,
                                                          shared := PathListPtr sl\<rparr>\<rparr>) of
              Inl e \<Rightarrow> Inl e
            | Inr a9 \<Rightarrow>
               (case endTraversal K (getHead (hd sl)) a9 of
                  Inl e \<Rightarrow> Inl e
                | Inr b \<Rightarrow>
                   Inr (b\<lparr>appliedcode := appliedcode a, currentpathcode := currentpathcode a,
                          applieddata := applieddata a\<rparr>)))) \<and>
      (\<not> (\<forall>p \<in> set sl. getHead p = getHead (hd sl)) \<longrightarrow>
         apply_pathlist K pathlist False a =
           (case traverse_groups K (head_groups sl) start of
              Inl e \<Rightarrow> Inl e
            | Inr b \<Rightarrow>
               Inr (b\<lparr>appliedcode := appliedcode a, currentpathcode := currentpathcode a,
                      applieddata := applieddata a\<rparr>))) \<and>
      sorted (map path_key (sort_pl pathlist)) \<and> set (sort_pl pathlist) = set pathlist \<and>
      length (sort_pl pathlist) = length pathlist \<and>
      concat (head_groups sl) = sl \<and>
      (\<forall>g \<in> set (head_groups sl). g \<noteq> [] \<and> (\<forall>p \<in> set g. getHead p = getHead (hd g))) \<and>
      sorted_wrt (<) (map (\<lambda>g. head_id (getHead (hd g))) (head_groups sl)) \<and>
      (hasTerminated s \<longrightarrow> traverse_groups K gs s = Inr s))"
proof -
  let ?sl = "uniquify (sort_pl pathlist)"
  let ?start = "pathlist_traversal_start pathlist a"
  let ?all = "\<forall>p \<in> set ?sl. getHead p = getHead (hd ?sl)"
  from assms(2) have ne: "?sl \<noteq> []"
    by (simp add: uniquify_Nil_iff sort_pl_Nil_iff)
  have cond: "getHead (?sl ! 0) = getHead (?sl ! (length ?sl - 1)) \<longleftrightarrow> ?all"
    by (rule sorted_heads_first_last [OF normalised_heads_sorted ne])
  have h0: "?sl ! 0 = hd ?sl"
    using ne by (simp add: hd_conv_nth)
  note start = apply_pathlist_start [OF assms, of False a]
  have one: "?all \<longrightarrow>
      apply_pathlist K pathlist False a =
        (case beginTraversal K (getHead (hd ?sl))
                (?start\<lparr>currentpath := [(getHead (hd ?sl), -1)],
                        applieddata := (applieddata a)\<lparr>origpathlist := PathListPtr pathlist,
                                                        shared := PathListPtr ?sl\<rparr>\<rparr>) of
           Inl e \<Rightarrow> Inl e
         | Inr a9 \<Rightarrow>
            (case endTraversal K (getHead (hd ?sl)) a9 of
               Inl e \<Rightarrow> Inl e
             | Inr b \<Rightarrow>
                Inr (b\<lparr>appliedcode := appliedcode a, currentpathcode := currentpathcode a,
                       applieddata := applieddata a\<rparr>)))"
  proof
    assume ?all
    with cond have "getHead (?sl ! 0) = getHead (?sl ! (length ?sl - 1))"
      by blast
    then have c: "getHead (hd ?sl) = getHead (?sl ! (length ?sl - 1))"
      by (simp only: h0)
    show "apply_pathlist K pathlist False a =
        (case beginTraversal K (getHead (hd ?sl))
                (?start\<lparr>currentpath := [(getHead (hd ?sl), -1)],
                        applieddata := (applieddata a)\<lparr>origpathlist := PathListPtr pathlist,
                                                        shared := PathListPtr ?sl\<rparr>\<rparr>) of
           Inl e \<Rightarrow> Inl e
         | Inr a9 \<Rightarrow>
            (case endTraversal K (getHead (hd ?sl)) a9 of
               Inl e \<Rightarrow> Inl e
             | Inr b \<Rightarrow>
                Inr (b\<lparr>appliedcode := appliedcode a, currentpathcode := currentpathcode a,
                       applieddata := applieddata a\<rparr>)))"
      unfolding start h0 if_False if_not_P [OF ne] if_P [OF c] case_sum_assoc
      by (rule refl)
  qed
  have many: "\<not> ?all \<longrightarrow>
      apply_pathlist K pathlist False a =
        (case traverse_groups K (head_groups ?sl) ?start of
           Inl e \<Rightarrow> Inl e
         | Inr b \<Rightarrow>
            Inr (b\<lparr>appliedcode := appliedcode a, currentpathcode := currentpathcode a,
                   applieddata := applieddata a\<rparr>))"
  proof
    assume "\<not> ?all"
    with cond have "getHead (?sl ! 0) \<noteq> getHead (?sl ! (length ?sl - 1))"
      by blast
    then have c: "getHead (hd ?sl) \<noteq> getHead (?sl ! (length ?sl - 1))"
      by (simp add: h0)
    have loop: "head_loop K ?sl 0 ?start = traverse_groups K (head_groups ?sl) ?start"
      using head_loop_groups [of 0 ?sl K ?start] by simp
    show "apply_pathlist K pathlist False a =
        (case traverse_groups K (head_groups ?sl) ?start of
           Inl e \<Rightarrow> Inl e
         | Inr b \<Rightarrow>
            Inr (b\<lparr>appliedcode := appliedcode a, currentpathcode := currentpathcode a,
                   applieddata := applieddata a\<rparr>))"
      unfolding start h0 if_False if_not_P [OF ne] if_not_P [OF c] loop
      by (rule refl)
  qed
  have groups: "\<forall>g \<in> set (head_groups ?sl). g \<noteq> [] \<and> (\<forall>p \<in> set g. getHead p = getHead (hd g))"
    using head_groups_share_head by blast
  have stop: "hasTerminated s \<longrightarrow> traverse_groups K gs s = Inr s"
    by (simp add: traverse_groups_terminated)
  have len: "length (sort_pl pathlist) = length pathlist"
    by (simp add: sort_pl_def)
  have incr: "sorted_wrt (<) (map (\<lambda>g. head_id (getHead (hd g))) (head_groups ?sl))"
    by (rule head_groups_heads_increasing [OF normalised_heads_sorted])
  from one many sort_pl_sorted [of pathlist] sort_pl_set [of pathlist] len
    concat_head_groups [of ?sl] groups incr stop
  show ?thesis
    unfolding Let_def by (intro conjI)
qed

lemmas sort_defs = sort_pl_def sort_key_def path_key_def head_id_def getHead_def containsPath_def

lemma normalise_two_heads:
  "uniquify (sort_pl [path_H0, path_G0_A_A1, path_G0_B]) = [path_G0_A_A1, path_G0_B, path_H0]"
  by (simp add: sort_defs scene_defs)

lemma normalise_one_head:
  "uniquify (sort_pl [path_G0_B, path_G0_A_A1]) = [path_G0_A_A1, path_G0_B]"
  by (simp add: sort_defs scene_defs)

lemma head_groups_example:
  "head_groups [path_G0_A_A1, path_G0_B, path_H0] = [[path_G0_A_A1, path_G0_B], [path_H0]]"
  by (simp add: getHead_def scene_defs)

lemma apply_two_heads_example:
  "apply_pathlist search_kernel [path_H0, path_G0_A_A1, path_G0_B] False outer_action =
     Inr (outer_action\<lparr>currentpath := [(Some 0, -1), (Some 1, 0)], terminated := True\<rparr>)"
  by (simp add: kernel_defs scene_defs sort_defs head_loop.simps group_templist_def
      group_next_def group_setup_def collect_group.simps find_path_loop.simps Let_def)

lemma apply_one_head_example:
  "apply_pathlist search_kernel [path_G0_B, path_G0_A_A1] False outer_action =
     Inr (outer_action\<lparr>currentpath := [(Some 0, -1), (Some 1, 0)], terminated := True\<rparr>)"
  by (simp add: kernel_defs scene_defs sort_defs find_path_loop.simps Let_def)

theorem apply_pathlist_not_obeying_rules_witness:
  "traversalMethods search_kernel \<noteq> None \<and>
   uniquify (sort_pl [path_H0, path_G0_A_A1, path_G0_B]) = [path_G0_A_A1, path_G0_B, path_H0] \<and>
   getHead path_H0 \<noteq> getHead path_G0_A_A1 \<and>
   head_groups [path_G0_A_A1, path_G0_B, path_H0] = [[path_G0_A_A1, path_G0_B], [path_H0]] \<and>
   apply_pathlist search_kernel [path_H0, path_G0_A_A1, path_G0_B] False outer_action =
     Inr (outer_action\<lparr>currentpath := [(Some 0, -1), (Some 1, 0)], terminated := True\<rparr>) \<and>
   traverse_groups search_kernel [[path_G0_A_A1, path_G0_B], [path_H0]]
       (pathlist_traversal_start [path_H0, path_G0_A_A1, path_G0_B] outer_action) =
     Inr ((pathlist_traversal_start [path_H0, path_G0_A_A1, path_G0_B] outer_action)
            \<lparr>applieddata := \<lparr>shared = PathListPtr [path_G0_A_A1, path_G0_B],
                             origpathlist = PathListPtr [path_H0, path_G0_A_A1, path_G0_B]\<rparr>,
             currentpathcode := IN_PATH,
             currentpath := [(Some 0, -1), (Some 1, 0)], terminated := True\<rparr>) \<and>
   uniquify (sort_pl [path_G0_B, path_G0_A_A1]) = [path_G0_A_A1, path_G0_B] \<and>
   getHead path_G0_B = getHead path_G0_A_A1 \<and>
   apply_pathlist search_kernel [path_G0_B, path_G0_A_A1] False outer_action =
     Inr (outer_action\<lparr>currentpath := [(Some 0, -1), (Some 1, 0)], terminated := True\<rparr>) \<and>
   hasTerminated (outer_action\<lparr>terminated := True\<rparr>) \<and>
   traverse_groups search_kernel [[path_H0]] (outer_action\<lparr>terminated := True\<rparr>) =
     Inr (outer_action\<lparr>terminated := True\<rparr>)"
proof -
  have k: "traversalMethods search_kernel \<noteq> None"
    by (simp add: scene_defs)
  have ne: "[path_H0, path_G0_A_A1, path_G0_B] \<noteq> []" "[path_G0_B, path_G0_A_A1] \<noteq> []"
    by simp_all
  have heads: "getHead path_H0 \<noteq> getHead path_G0_A_A1" "getHead path_G0_B = getHead path_G0_A_A1"
    by (simp_all add: getHead_def scene_defs)
  have t: "hasTerminated (outer_action\<lparr>terminated := True\<rparr>)"
    by (simp add: hasTerminated_def)
  note two = apply_pathlist_not_obeying_rules [OF k ne(1), of outer_action
      "outer_action\<lparr>terminated := True\<rparr>" "[[path_H0]]",
      unfolded Let_def normalise_two_heads]
  note one = apply_pathlist_not_obeying_rules [OF k ne(2), of outer_action
      "outer_action\<lparr>terminated := True\<rparr>" "[[path_H0]]",
      unfolded Let_def normalise_one_head]
  have many: "\<not> (\<forall>p \<in> set [path_G0_A_A1, path_G0_B, path_H0].
      getHead p = getHead (hd [path_G0_A_A1, path_G0_B, path_H0]))"
    by (simp add: getHead_def scene_defs)
  have single: "\<forall>p \<in> set [path_G0_A_A1, path_G0_B].
      getHead p = getHead (hd [path_G0_A_A1, path_G0_B])"
    by (simp add: getHead_def scene_defs)
  from two [THEN conjunct2, THEN conjunct1] many
  have run: "apply_pathlist search_kernel [path_H0, path_G0_A_A1, path_G0_B] False outer_action =
      (case traverse_groups search_kernel (head_groups [path_G0_A_A1, path_G0_B, path_H0])
              (pathlist_traversal_start [path_H0, path_G0_A_A1, path_G0_B] outer_action) of
         Inl e \<Rightarrow> Inl e
       | Inr b \<Rightarrow>
          Inr (b\<lparr>appliedcode := appliedcode outer_action,
                 currentpathcode := currentpathcode outer_action,
                 applieddata := applieddata outer_action\<rparr>))"
    by (rule mp)
  from one [THEN conjunct1] single
  have "apply_pathlist search_kernel [path_G0_B, path_G0_A_A1] False outer_action =
      (case beginTraversal search_kernel (getHead (hd [path_G0_A_A1, path_G0_B]))
              ((pathlist_traversal_start [path_G0_B, path_G0_A_A1] outer_action)
                 \<lparr>currentpath := [(getHead (hd [path_G0_A_A1, path_G0_B]), -1)],
                  applieddata :=
                    (applieddata outer_action)
                      \<lparr>origpathlist := PathListPtr [path_G0_B, path_G0_A_A1],
                       shared := PathListPtr [path_G0_A_A1, path_G0_B]\<rparr>\<rparr>) of
         Inl e \<Rightarrow> Inl e
       | Inr a9 \<Rightarrow>
          (case endTraversal search_kernel (getHead (hd [path_G0_A_A1, path_G0_B])) a9 of
             Inl e \<Rightarrow> Inl e
           | Inr b \<Rightarrow>
              Inr (b\<lparr>appliedcode := appliedcode outer_action,
                     currentpathcode := currentpathcode outer_action,
                     applieddata := applieddata outer_action\<rparr>)))"
    by (rule mp)
  then have run1: "apply_pathlist search_kernel [path_G0_B, path_G0_A_A1] False outer_action =
      Inr (outer_action\<lparr>currentpath := [(Some 0, -1), (Some 1, 0)], terminated := True\<rparr>)"
    by (simp only: apply_one_head_example)
  from two [THEN conjunct2, THEN conjunct2, THEN conjunct2, THEN conjunct2, THEN conjunct2,
      THEN conjunct2, THEN conjunct2, THEN conjunct2] t
  have stop: "traverse_groups search_kernel [[path_H0]] (outer_action\<lparr>terminated := True\<rparr>)
      = Inr (outer_action\<lparr>terminated := True\<rparr>)"
    by (rule mp)
  have groups: "traverse_groups search_kernel [[path_G0_A_A1, path_G0_B], [path_H0]]
       (pathlist_traversal_start [path_H0, path_G0_A_A1, path_G0_B] outer_action) =
     Inr ((pathlist_traversal_start [path_H0, path_G0_A_A1, path_G0_B] outer_action)
            \<lparr>applieddata := \<lparr>shared = PathListPtr [path_G0_A_A1, path_G0_B],
                             origpathlist = PathListPtr [path_H0, path_G0_A_A1, path_G0_B]\<rparr>,
             currentpathcode := IN_PATH,
             currentpath := [(Some 0, -1), (Some 1, 0)], terminated := True\<rparr>)"
    by (simp add: kernel_defs scene_defs pathlist_traversal_start_def group_setup_def
        find_path_loop.simps Let_def)
  from run have run2: "apply_pathlist search_kernel [path_H0, path_G0_A_A1, path_G0_B] False
        outer_action =
      Inr (outer_action\<lparr>currentpath := [(Some 0, -1), (Some 1, 0)], terminated := True\<rparr>)"
    by (simp only: apply_two_heads_example)
  from k normalise_two_heads heads(1) head_groups_example run2 groups normalise_one_head
    heads(2) run1 t stop
  show ?thesis
    by (intro conjI)
qed

section \<open>The path code at the start of a traversal\<close>

lemma traversal_seeds:
  "currentpathcode (path_traversal_start p a) =
     (if getFullLength p > 1 then IN_PATH else BELOW_PATH) \<and>
   currentpathcode (pathlist_traversal_start pathlist a) =
     (if getFullLength (pathlist ! 0) > 1 then IN_PATH else BELOW_PATH) \<and>
   currentpathcode (group_setup templist a) =
     (if getFullLength (templist ! 0) > 1 then IN_PATH else BELOW_PATH)"
  by (simp add: path_traversal_start_def pathlist_traversal_start_def group_setup_def Let_def
      getState_def split: option.splits)

text \<open>
  Claim C3: at the start of every traversal of a path and of a path list (each group of
  the pass per head node included) the current path code is \<open>IN_PATH\<close> if the path being
  traversed (for a list: its first path) has a full length greater than 1, and
  \<open>BELOW_PATH\<close> otherwise. This holds for a path, for a list that obeys the rules and for
  the groups (lemmas \<open>apply_path_begins_with\<close>, \<open>apply_pathlist_start\<close>, \<open>traversal_seeds\<close>).
  For a list that need not obey the rules and whose paths share one head, the code is
  computed from the first path of the list the caller passed, while the traversal runs
  over the sorted copy: for the list of the path from \<open>G0\<close> to \<open>A\<close> and the path \<open>G0\<close>,
  \<open>beginTraversal\<close> is called with the code \<open>IN_PATH\<close> and the applied list whose first path
  is \<open>G0\<close> alone, of full length 1.
\<close>

theorem apply_pathlist_seeds_from_callers_list:
  "apply_pathlist \<lparr>traversalMethods = Some m, beginTraversal = bt, endTraversal = et,
                   append_index = app\<rparr> [path_G0_A, path_G0] False a =
     (case bt (Some 0)
             ((getState (a\<lparr>terminated := False\<rparr>))
                \<lparr>appliedcode := PATH_LIST, currentpathcode := IN_PATH,
                 currentpath := [(Some 0, -1)],
                 applieddata := (applieddata a)\<lparr>origpathlist := PathListPtr [path_G0_A, path_G0],
                                                shared := PathListPtr [path_G0, path_G0_A]\<rparr>\<rparr>) of
        Inl e \<Rightarrow> Inl e
      | Inr a9 \<Rightarrow>
         (case et (Some 0) a9 of
            Inl e \<Rightarrow> Inl e
          | Inr b \<Rightarrow>
             Inr (b\<lparr>appliedcode := appliedcode a, currentpathcode := currentpathcode a,
                    applieddata := applieddata a\<rparr>))) \<and>
   uniquify (sort_pl [path_G0_A, path_G0]) = [path_G0, path_G0_A] \<and>
   getFullLength (hd [path_G0, path_G0_A]) = 1"
proof -
  have n: "uniquify (sort_pl [path_G0_A, path_G0]) = [path_G0, path_G0_A]"
    by (simp add: sort_defs scene_defs)
  have "apply_pathlist \<lparr>traversalMethods = Some m, beginTraversal = bt, endTraversal = et,
                   append_index = app\<rparr> [path_G0_A, path_G0] False a =
     (case bt (Some 0)
             ((getState (a\<lparr>terminated := False\<rparr>))
                \<lparr>appliedcode := PATH_LIST, currentpathcode := IN_PATH,
                 currentpath := [(Some 0, -1)],
                 applieddata := (applieddata a)\<lparr>origpathlist := PathListPtr [path_G0_A, path_G0],
                                                shared := PathListPtr [path_G0, path_G0_A]\<rparr>\<rparr>) of
        Inl e \<Rightarrow> Inl e
      | Inr a9 \<Rightarrow>
         (case et (Some 0) a9 of
            Inl e \<Rightarrow> Inl e
          | Inr b \<Rightarrow>
             Inr (b\<lparr>appliedcode := appliedcode a, currentpathcode := currentpathcode a,
                    applieddata := applieddata a\<rparr>)))"
    unfolding apply_pathlist_def Let_def n
    by (simp add: case_sum_assoc getState_applieddata setHead_def getHead_def getFullLength_def
        path_G0_def path_G0_A_def cong: sum.case_cong)
  with n show ?thesis
    by (simp add: getFullLength_def path_G0_def)
qed

end
